theory Spec2Isabelle
  imports Main "HOL-Library.AList" "HOL-Library.Sublist"
begin

section \<open>Values exchanged with the provider\<close>

text \<open>
  The client of \<^verbatim>\<open>src/utils/dataforseo_client.py\<close> walks the decoded JSON body of a
  response with \<^verbatim>\<open>.get\<close>, \<^verbatim>\<open>in\<close>, \<^verbatim>\<open>[...]\<close> and \<^verbatim>\<open>for\<close>, without checking any type.
  The model keeps the values dynamically typed, so that every one of these operations
  has the outcome Python gives it, the exception included.

  A Python \<^verbatim>\<open>str\<close> is a \<open>string\<close>, one element per code point. A \<^verbatim>\<open>dict\<close> is an
  association list in insertion order; the value of a key is the first pair that has
  it. \<^verbatim>\<open>None\<close> and JSON's \<^verbatim>\<open>null\<close> are the same value, \<open>JNull\<close>. A finite float is its
  mantissa and binary exponent; \<^verbatim>\<open>json.loads\<close> also accepts the three non-finite ones.
\<close>

datatype pyfloat = Finite int int | Infinity bool | NaN

datatype json =
    JNull
  | JBool bool
  | JInt int
  | JFloat pyfloat
  | JStr string
  | JList "json list"
  | JObj "(string \<times> json) list"

text \<open>
  An f-string is kept as its pieces: the literal text and the interpolated values,
  not rendered. \<open>Elapsed\<close> stands for a formatted wall-clock duration.
\<close>

datatype frag = Lit string | Val json | Elapsed

type_synonym message = "frag list"

datatype exception =
    DataForSEOError message
  | ValueError message
  | KeyError string
  | TypeError
  | AttributeError
  | Other string string

text \<open>
  \<open>Other cls msg\<close> is an exception of a class the client does not raise itself,
  propagated from the HTTP library. A call returns, raises, or never comes back
  (it waits for a slot of the rate limiter that nobody frees).
\<close>

datatype 'a outcome = Return 'a | Raise exception | Hang

subsection \<open>Python's operations on decoded JSON\<close>

text \<open>\<^verbatim>\<open>x == n\<close> for an \<^verbatim>\<open>int\<close> \<open>n\<close>: numbers compare by value, \<^verbatim>\<open>True\<close> is 1.\<close>

fun float_eq_int :: "pyfloat \<Rightarrow> int \<Rightarrow> bool" where
  "float_eq_int (Finite m e) n =
     (if 0 \<le> e then m * 2 ^ nat e = n else m = n * 2 ^ nat (- e))"
| "float_eq_int (Infinity _) n = False"
| "float_eq_int NaN n = False"

fun py_eq_int :: "json \<Rightarrow> int \<Rightarrow> bool" where
  "py_eq_int (JInt i) n = (i = n)"
| "py_eq_int (JBool b) n = ((if b then 1 else 0) = n)"
| "py_eq_int (JFloat f) n = float_eq_int f n"
| "py_eq_int _ n = False"

text \<open>\<^verbatim>\<open>x.get(k, default)\<close>: only a \<^verbatim>\<open>dict\<close> has the method.\<close>

fun py_get :: "json \<Rightarrow> string \<Rightarrow> json \<Rightarrow> exception + json" where
  "py_get (JObj d) k dflt = Inr (case map_of d k of Some v \<Rightarrow> v | None \<Rightarrow> dflt)"
| "py_get _ k dflt = Inl AttributeError"

text \<open>\<^verbatim>\<open>x[k]\<close> for a \<^verbatim>\<open>str\<close> key \<open>k\<close>.\<close>

fun py_getitem :: "json \<Rightarrow> string \<Rightarrow> exception + json" where
  "py_getitem (JObj d) k = (case map_of d k of Some v \<Rightarrow> Inr v | None \<Rightarrow> Inl (KeyError k))"
| "py_getitem _ k = Inl TypeError"

text \<open>
  \<^verbatim>\<open>k in x\<close> for a \<^verbatim>\<open>str\<close> \<open>k\<close>: a key of a \<^verbatim>\<open>dict\<close>, an element of a \<^verbatim>\<open>list\<close>,
  a substring of a \<^verbatim>\<open>str\<close>.
\<close>

fun py_contains :: "string \<Rightarrow> json \<Rightarrow> exception + bool" where
  "py_contains k (JObj d) = Inr (map_of d k \<noteq> None)"
| "py_contains k (JList xs) = Inr (JStr k \<in> set xs)"
| "py_contains k (JStr s) = Inr (sublist k s)"
| "py_contains k _ = Inl TypeError"

text \<open>
  \<^verbatim>\<open>for y in x\<close>: the elements of a \<^verbatim>\<open>list\<close>, the keys of a \<^verbatim>\<open>dict\<close>, the characters
  of a \<^verbatim>\<open>str\<close>.
\<close>

fun py_iter :: "json \<Rightarrow> exception + json list" where
  "py_iter (JList xs) = Inr xs"
| "py_iter (JObj d) = Inr (map (\<lambda>p. JStr (fst p)) (AList.clearjunk d))"
| "py_iter (JStr s) = Inr (map (\<lambda>c. JStr [c]) s)"
| "py_iter _ = Inl TypeError"

text \<open>Truth value of an \<^verbatim>\<open>Optional[str]\<close> and of an \<^verbatim>\<open>Optional[int]\<close> argument.\<close>

definition truthy_str :: "string option \<Rightarrow> bool" where
  "truthy_str s = (case s of None \<Rightarrow> False | Some v \<Rightarrow> v \<noteq> [])"

definition truthy_int :: "int option \<Rightarrow> bool" where
  "truthy_int i = (case i of None \<Rightarrow> False | Some v \<Rightarrow> v \<noteq> 0)"

section \<open>The client, the HTTP session and the log\<close>

text \<open>
  \<^verbatim>\<open>aiohttp.ClientSession\<close> is outside the repository. The model keeps what the client
  gives it (the total timeout) and whether it has been closed. What a session does with
  a request is a parameter, the transport: it sees the calls made so far, the session
  and the request, and either fails on sending, fails on decoding the body, or yields
  the HTTP status and the decoded body. A failure is an \<^verbatim>\<open>aiohttp.ClientError\<close> or any
  other exception, given by its class and text.
\<close>

record client_session =
  timeout_total :: nat
  closed :: bool

datatype verb = GET | POST

record request =
  verb :: verb
  target :: string
  json_arg :: "json option"

datatype transport_error = ClientError string | Unclassified string string

datatype transport_result =
    Send_fails transport_error
  | Decode_fails int transport_error
  | Responds int json

type_synonym transport = "request list \<Rightarrow> client_session \<Rightarrow> request \<Rightarrow> transport_result"

text \<open>
  A log record is its level and its f-string; \<open>Error_exc m e\<close> is an error record
  whose text is \<open>m\<close> followed by \<^verbatim>\<open>str(e)\<close>.
\<close>

datatype log_record = Info message | Error message | Error_exc message exception

text \<open>
  The state is the client object (\<open>base_url\<close>, the free slots of \<open>rate_limiter\<close>,
  \<open>session\<close>) together with what a call leaves behind outside it: the requests handed
  to the session, in order, and the records written to the logger. The Authorization
  header is computed once in the constructor and only handed to the HTTP library;
  the state keeps the credentials it is computed from.
\<close>

record state =
  base_url :: string
  credentials :: "string \<times> string"
  rate_limiter :: nat
  session :: "client_session option"
  calls :: "request list"
  logged :: "log_record list"

definition logger_info :: "message \<Rightarrow> state \<Rightarrow> state" where
  "logger_info m st = st\<lparr>logged := logged st @ [Info m]\<rparr>"

definition logger_error :: "message \<Rightarrow> state \<Rightarrow> state" where
  "logger_error m st = st\<lparr>logged := logged st @ [Error m]\<rparr>"

definition logger_error_exc :: "message \<Rightarrow> exception \<Rightarrow> state \<Rightarrow> state" where
  "logger_error_exc m e st = st\<lparr>logged := logged st @ [Error_exc m e]\<rparr>"

subsection \<open>Construction and scoped acquisition\<close>

text \<open>
  \<^verbatim>\<open>asyncio.Semaphore\<close> refuses a negative initial value, so the rate limit of a client
  that exists is a natural number; a fresh client has made no call and logged nothing.
  Leaving the scope closes the session and keeps it in the \<open>session\<close> attribute.
\<close>

definition init :: "string \<Rightarrow> string \<Rightarrow> nat \<Rightarrow> state" where
  "init login password rate_limit =
     \<lparr>base_url = ''https://api.dataforseo.com/v3'',
      credentials = (login, password),
      rate_limiter = rate_limit,
      session = None,
      calls = [],
      logged = []\<rparr>"

definition aenter :: "state \<Rightarrow> state" where
  "aenter st = st\<lparr>session := Some \<lparr>timeout_total = 30, closed = False\<rparr>\<rparr>"

definition aexit :: "state \<Rightarrow> state" where
  "aexit st =
     (case session st of
        None \<Rightarrow> st
      | Some s \<Rightarrow> st\<lparr>session := Some (s\<lparr>closed := True\<rparr>)\<rparr>)"

subsection \<open>Request execution\<close>

text \<open>The check of the envelope, the same in the POST and in the GET branch.\<close>

definition check_envelope :: "json \<Rightarrow> json outcome" where
  "check_envelope response_data =
     (case py_get response_data ''status_code'' JNull of
        Inl e \<Rightarrow> Raise e
      | Inr code \<Rightarrow>
          if \<not> py_eq_int code 20000 then
            (case py_get response_data ''status_message'' (JStr ''Unknown error'') of
               Inl e \<Rightarrow> Raise e
             | Inr error_msg \<Rightarrow>
                 Raise (DataForSEOError [Lit ''API error '', Val code, Lit '': '', Val error_msg]))
          else Return response_data)"

text \<open>The two \<^verbatim>\<open>except\<close> clauses of \<^verbatim>\<open>_make_request\<close>.\<close>

definition on_transport_error ::
  "string \<Rightarrow> string \<Rightarrow> transport_error \<Rightarrow> state \<Rightarrow> json outcome \<times> state" where
  "on_transport_error method url e st =
     (case e of
        ClientError msg \<Rightarrow>
          (Raise (DataForSEOError [Lit ''Request failed: '', Val (JStr msg)]),
           logger_error [Lit (method @ '' '' @ url @ '' - FAILED - ''), Elapsed, Lit ''s - '',
                         Val (JStr msg)] st)
      | Unclassified cls msg \<Rightarrow>
          (Raise (Other cls msg),
           logger_error_exc [Lit (method @ '' '' @ url @ '' - ERROR - ''), Elapsed, Lit ''s - '']
             (Other cls msg) st))"

definition response_line :: "string \<Rightarrow> string \<Rightarrow> int \<Rightarrow> message" where
  "response_line method url status =
     [Lit (method @ '' '' @ url @ '' - ''), Val (JInt status), Lit '' - '', Elapsed, Lit ''s'']"

text \<open>
  The call made on the session: \<^verbatim>\<open>session.post(url, json=data)\<close> when the method is
  \<^verbatim>\<open>"POST"\<close>, \<^verbatim>\<open>session.get(url)\<close> otherwise.
\<close>

definition request_for :: "string \<Rightarrow> string \<Rightarrow> json option \<Rightarrow> request" where
  "request_for method url data =
     (if method = ''POST'' then \<lparr>verb = POST, target = url, json_arg = data\<rparr>
      else \<lparr>verb = GET, target = url, json_arg = None\<rparr>)"

text \<open>The \<^verbatim>\<open>try\<close> block, run while a slot of the rate limiter is held.\<close>

definition attempt ::
  "transport \<Rightarrow> client_session \<Rightarrow> string \<Rightarrow> string \<Rightarrow> json option \<Rightarrow> state
     \<Rightarrow> json outcome \<times> state" where
  "attempt net s method url data st =
     (let st1 = logger_info [Lit (method @ '' '' @ url)] st;
          req = request_for method url data;
          st2 = st1\<lparr>calls := calls st1 @ [req]\<rparr>
      in case net (calls st1) s req of
           Send_fails e \<Rightarrow> on_transport_error method url e st2
         | Decode_fails status e \<Rightarrow>
             on_transport_error method url e (logger_info (response_line method url status) st2)
         | Responds status response_data \<Rightarrow>
             (let st3 = logger_info (response_line method url status) st2
              in case check_envelope response_data of
                   Raise e \<Rightarrow>
                     (Raise e,
                      logger_error_exc
                        [Lit (method @ '' '' @ url @ '' - ERROR - ''), Elapsed, Lit ''s - ''] e st3)
                 | out \<Rightarrow> (out, st3)))"

text \<open>
  \<^verbatim>\<open>_make_request\<close>, for a caller with no other request in flight: the slot is there
  when the limiter has one at all, and it is given back on every way out.
\<close>

definition make_request ::
  "transport \<Rightarrow> string \<Rightarrow> string \<Rightarrow> json option \<Rightarrow> state \<Rightarrow> json outcome \<times> state" where
  "make_request net method endpoint data st =
     (case session st of
        None \<Rightarrow>
          (Raise (DataForSEOError [Lit ''Client not initialized. Use async context manager.'']), st)
      | Some s \<Rightarrow>
          (let url = base_url st @ ''/'' @ dropWhile (\<lambda>c. c = CHR ''/'') endpoint
           in if rate_limiter st = 0 then (Hang, st)
              else
                (case attempt net s method url data (st\<lparr>rate_limiter := rate_limiter st - 1\<rparr>) of
                   (out, st') \<Rightarrow> (out, st'\<lparr>rate_limiter := rate_limiter st' + 1\<rparr>))))"

definition get_locations_and_languages :: "transport \<Rightarrow> state \<Rightarrow> json outcome \<times> state" where
  "get_locations_and_languages net st =
     make_request net ''GET'' ''keywords_data/clickstream_data/locations_and_languages'' None st"

section \<open>The query operations\<close>

record SearchVolumeResult =
  keyword :: json
  search_volume :: json
  monthly_searches :: json
  location_code :: json
  language_code :: json
  use_clickstream :: json

record GlobalSearchVolumeResult =
  global_keyword :: json
  global_search_volume :: json
  country_distribution :: json

text \<open>An optional argument as the Python value it is.\<close>

definition str_value :: "string option \<Rightarrow> json" where
  "str_value s = (case s of None \<Rightarrow> JNull | Some v \<Rightarrow> JStr v)"

definition int_value :: "int option \<Rightarrow> json" where
  "int_value i = (case i of None \<Rightarrow> JNull | Some v \<Rightarrow> JInt v)"

definition set_location :: "string option \<Rightarrow> int option \<Rightarrow> (string \<times> json) list \<Rightarrow> (string \<times> json) list" where
  "set_location loc_name loc_code p =
     (if truthy_str loc_name then AList.update ''location_name'' (str_value loc_name) p
      else if truthy_int loc_code then AList.update ''location_code'' (int_value loc_code) p
      else p)"

definition set_language :: "string option \<Rightarrow> string option \<Rightarrow> (string \<times> json) list \<Rightarrow> (string \<times> json) list" where
  "set_language lang_name lang_code p =
     (if truthy_str lang_name then AList.update ''language_name'' (str_value lang_name) p
      else if truthy_str lang_code then AList.update ''language_code'' (str_value lang_code) p
      else p)"

definition set_tag :: "string option \<Rightarrow> (string \<times> json) list \<Rightarrow> (string \<times> json) list" where
  "set_tag tag p = (if truthy_str tag then AList.update ''tag'' (str_value tag) p else p)"

subsection \<open>\<^verbatim>\<open>get_search_volume\<close>\<close>

definition search_volume_payload ::
  "string list \<Rightarrow> string option \<Rightarrow> int option \<Rightarrow> string option \<Rightarrow> string option \<Rightarrow> bool
     \<Rightarrow> string option \<Rightarrow> (string \<times> json) list" where
  "search_volume_payload keywords loc_name loc_code lang_name lang_code clickstream tag =
     set_tag tag
       (set_language lang_name lang_code
          (set_location loc_name loc_code
             [(''keywords'', JList (map JStr keywords)), (''use_clickstream'', JBool clickstream)]))"

definition construct_result :: "json \<Rightarrow> exception + SearchVolumeResult" where
  "construct_result result =
     (case py_getitem result ''keyword'' of Inl e \<Rightarrow> Inl e | Inr k \<Rightarrow>
      case py_getitem result ''search_volume'' of Inl e \<Rightarrow> Inl e | Inr v \<Rightarrow>
      case py_get result ''monthly_searches'' (JList []) of Inl e \<Rightarrow> Inl e | Inr m \<Rightarrow>
      case py_get result ''location_code'' JNull of Inl e \<Rightarrow> Inl e | Inr loc \<Rightarrow>
      case py_get result ''language_code'' JNull of Inl e \<Rightarrow> Inl e | Inr lang \<Rightarrow>
      case py_get result ''use_clickstream'' (JBool True) of Inl e \<Rightarrow> Inl e | Inr uc \<Rightarrow>
        Inr \<lparr>keyword = k, search_volume = v, monthly_searches = m, location_code = loc,
             language_code = lang, use_clickstream = uc\<rparr>)"

text \<open>The inner loop, over the result array of one task.\<close>

fun search_volume_results ::
  "json list \<Rightarrow> SearchVolumeResult list \<Rightarrow> state \<Rightarrow> SearchVolumeResult list outcome \<times> state" where
  "search_volume_results [] results st = (Return results, st)"
| "search_volume_results (result # rest) results st =
     (case py_contains ''keyword'' result of
        Inl e \<Rightarrow> (Raise e, st)
      | Inr has_keyword \<Rightarrow>
          if \<not> has_keyword then search_volume_results rest results st
          else
            (case py_contains ''search_volume'' result of
               Inl e \<Rightarrow> (Raise e, st)
             | Inr has_volume \<Rightarrow>
                 if \<not> has_volume then search_volume_results rest results st
                 else
                   (case construct_result result of
                      Inl e \<Rightarrow> (Raise e, st)
                    | Inr r \<Rightarrow>
                        search_volume_results rest (results @ [r])
                          (logger_info [Lit ''Processed keyword: '', Val (keyword r),
                                        Lit '' - Volume: '', Val (search_volume r)] st))))"

text \<open>The outer loop, over the tasks of the response.\<close>

fun search_volume_tasks ::
  "json list \<Rightarrow> SearchVolumeResult list \<Rightarrow> state \<Rightarrow> SearchVolumeResult list outcome \<times> state" where
  "search_volume_tasks [] results st = (Return results, st)"
| "search_volume_tasks (task # rest) results st =
     (case py_get task ''status_code'' JNull of
        Inl e \<Rightarrow> (Raise e, st)
      | Inr code \<Rightarrow>
          if \<not> py_eq_int code 20000 then
            (case py_get task ''status_message'' JNull of
               Inl e \<Rightarrow> (Raise e, st)
             | Inr msg \<Rightarrow>
                 (case py_get task ''data'' JNull of
                    Inl e \<Rightarrow> (Raise e, logger_error [Lit ''Task error: '', Val msg] st)
                  | Inr d \<Rightarrow>
                      search_volume_tasks rest results
                        (logger_error [Lit ''Task data: '', Val d]
                           (logger_error [Lit ''Task error: '', Val msg] st))))
          else
            (case py_get task ''result'' (JList []) of
               Inl e \<Rightarrow> (Raise e, st)
             | Inr rs \<Rightarrow>
                 (case py_iter rs of
                    Inl e \<Rightarrow> (Raise e, st)
                  | Inr items \<Rightarrow>
                      (case search_volume_results items results st of
                         (Return results', st') \<Rightarrow> search_volume_tasks rest results' st'
                       | (Raise e, st') \<Rightarrow> (Raise e, st')
                       | (Hang, st') \<Rightarrow> (Hang, st')))))"

text \<open>
  The walk over a response body that passed the envelope check, as each operation
  starts it: \<^verbatim>\<open>response.get("tasks", [])\<close>, then the loop.
\<close>

definition tasks_of :: "json \<Rightarrow> exception + json list" where
  "tasks_of response =
     (case py_get response ''tasks'' (JList []) of
        Inl e \<Rightarrow> Inl e
      | Inr ts \<Rightarrow> py_iter ts)"

definition get_search_volume ::
  "transport \<Rightarrow> string list \<Rightarrow> string option \<Rightarrow> int option \<Rightarrow> string option \<Rightarrow> string option
     \<Rightarrow> bool \<Rightarrow> string option \<Rightarrow> state \<Rightarrow> SearchVolumeResult list outcome \<times> state" where
  "get_search_volume net keywords loc_name loc_code lang_name lang_code clickstream tag st =
     (if keywords = [] then
        (Raise (ValueError [Lit ''Keywords list cannot be empty'']), st)
      else if length keywords > 1000 then
        (Raise (ValueError [Lit ''Maximum 1000 keywords allowed per request'']), st)
      else if \<not> (truthy_str loc_name \<or> truthy_int loc_code) then
        (Raise (ValueError [Lit ''Either location_name or location_code is required'']), st)
      else if \<not> (truthy_str lang_name \<or> truthy_str lang_code) then
        (Raise (ValueError [Lit ''Either language_name or language_code is required'']), st)
      else
        (case make_request net ''POST'' ''keywords_data/google/search_volume/live''
                (Some (JList [JObj (search_volume_payload keywords loc_name loc_code
                                      lang_name lang_code clickstream tag)])) st of
           (Return response, st') \<Rightarrow>
             (case tasks_of response of
                Inl e \<Rightarrow> (Raise e, st')
              | Inr tasks \<Rightarrow> search_volume_tasks tasks [] st')
         | (Raise e, st') \<Rightarrow> (Raise e, st')
         | (Hang, st') \<Rightarrow> (Hang, st')))"

subsection \<open>\<^verbatim>\<open>get_global_search_volume\<close>\<close>

text \<open>The loop that checks the length of every keyword; the first short one raises.\<close>

fun check_keyword_lengths :: "string list \<Rightarrow> exception option" where
  "check_keyword_lengths [] = None"
| "check_keyword_lengths (kw # rest) =
     (if length kw < 3 then
        Some (ValueError [Lit ''Keyword '', Lit [CHR 0x27], Val (JStr kw), Lit [CHR 0x27],
                          Lit '' must be at least 3 characters''])
      else check_keyword_lengths rest)"

definition construct_global :: "json \<Rightarrow> exception + GlobalSearchVolumeResult" where
  "construct_global item =
     (case py_getitem item ''keyword'' of Inl e \<Rightarrow> Inl e | Inr k \<Rightarrow>
      case py_getitem item ''search_volume'' of Inl e \<Rightarrow> Inl e | Inr v \<Rightarrow>
      case py_get item ''country_distribution'' (JList []) of Inl e \<Rightarrow> Inl e | Inr cd \<Rightarrow>
        Inr \<lparr>global_keyword = k, global_search_volume = v, country_distribution = cd\<rparr>)"

fun global_items ::
  "json list \<Rightarrow> GlobalSearchVolumeResult list \<Rightarrow> exception + GlobalSearchVolumeResult list" where
  "global_items [] results = Inr results"
| "global_items (item # rest) results =
     (case construct_global item of
        Inl e \<Rightarrow> Inl e
      | Inr r \<Rightarrow> global_items rest (results @ [r]))"

fun global_results ::
  "json list \<Rightarrow> GlobalSearchVolumeResult list \<Rightarrow> exception + GlobalSearchVolumeResult list" where
  "global_results [] results = Inr results"
| "global_results (result # rest) results =
     (case py_get result ''items'' (JList []) of
        Inl e \<Rightarrow> Inl e
      | Inr its \<Rightarrow>
          (case py_iter its of
             Inl e \<Rightarrow> Inl e
           | Inr items \<Rightarrow>
               (case global_items items results of
                  Inl e \<Rightarrow> Inl e
                | Inr results' \<Rightarrow> global_results rest results')))"

fun global_tasks ::
  "json list \<Rightarrow> GlobalSearchVolumeResult list \<Rightarrow> state
     \<Rightarrow> GlobalSearchVolumeResult list outcome \<times> state" where
  "global_tasks [] results st = (Return results, st)"
| "global_tasks (task # rest) results st =
     (case py_get task ''status_code'' JNull of
        Inl e \<Rightarrow> (Raise e, st)
      | Inr code \<Rightarrow>
          if \<not> py_eq_int code 20000 then
            (case py_get task ''status_message'' JNull of
               Inl e \<Rightarrow> (Raise e, st)
             | Inr msg \<Rightarrow> global_tasks rest results (logger_error [Lit ''Task error: '', Val msg] st))
          else
            (case py_get task ''result'' (JList []) of
               Inl e \<Rightarrow> (Raise e, st)
             | Inr rs \<Rightarrow>
                 (case py_iter rs of
                    Inl e \<Rightarrow> (Raise e, st)
                  | Inr rlist \<Rightarrow>
                      (case global_results rlist results of
                         Inl e \<Rightarrow> (Raise e, st)
                       | Inr results' \<Rightarrow> global_tasks rest results' st))))"

definition get_global_search_volume ::
  "transport \<Rightarrow> string list \<Rightarrow> string option \<Rightarrow> state
     \<Rightarrow> GlobalSearchVolumeResult list outcome \<times> state" where
  "get_global_search_volume net keywords tag st =
     (if keywords = [] then
        (Raise (ValueError [Lit ''Keywords list cannot be empty'']), st)
      else if length keywords > 1000 then
        (Raise (ValueError [Lit ''Maximum 1000 keywords allowed per request'']), st)
      else
        (case check_keyword_lengths keywords of
           Some e \<Rightarrow> (Raise e, st)
         | None \<Rightarrow>
             (case make_request net ''POST''
                     ''keywords_data/clickstream_data/search_volume_normalized/live''
                     (Some (JList [JObj (set_tag tag [(''keywords'', JList (map JStr keywords))])]))
                     st of
                (Return response, st') \<Rightarrow>
                  (case tasks_of response of
                     Inl e \<Rightarrow> (Raise e, st')
                   | Inr tasks \<Rightarrow> global_tasks tasks [] st')
              | (Raise e, st') \<Rightarrow> (Raise e, st')
              | (Hang, st') \<Rightarrow> (Hang, st'))))"

subsection \<open>\<^verbatim>\<open>get_search_volume_by_location\<close>\<close>

definition construct_located :: "json \<Rightarrow> json \<Rightarrow> exception + SearchVolumeResult" where
  "construct_located result item =
     (case py_getitem item ''keyword'' of Inl e \<Rightarrow> Inl e | Inr k \<Rightarrow>
      case py_getitem item ''search_volume'' of Inl e \<Rightarrow> Inl e | Inr v \<Rightarrow>
      case py_get item ''monthly_searches'' (JList []) of Inl e \<Rightarrow> Inl e | Inr m \<Rightarrow>
      case py_get result ''location_code'' JNull of Inl e \<Rightarrow> Inl e | Inr loc \<Rightarrow>
        Inr \<lparr>keyword = k, search_volume = v, monthly_searches = m, location_code = loc,
             language_code = JNull, use_clickstream = JBool True\<rparr>)"

fun located_items ::
  "json \<Rightarrow> json list \<Rightarrow> SearchVolumeResult list \<Rightarrow> exception + SearchVolumeResult list" where
  "located_items result [] results = Inr results"
| "located_items result (item # rest) results =
     (case construct_located result item of
        Inl e \<Rightarrow> Inl e
      | Inr r \<Rightarrow> located_items result rest (results @ [r]))"

fun located_results ::
  "json list \<Rightarrow> SearchVolumeResult list \<Rightarrow> exception + SearchVolumeResult list" where
  "located_results [] results = Inr results"
| "located_results (result # rest) results =
     (case py_get result ''items'' (JList []) of
        Inl e \<Rightarrow> Inl e
      | Inr its \<Rightarrow>
          (case py_iter its of
             Inl e \<Rightarrow> Inl e
           | Inr items \<Rightarrow>
               (case located_items result items results of
                  Inl e \<Rightarrow> Inl e
                | Inr results' \<Rightarrow> located_results rest results')))"

fun located_tasks ::
  "json list \<Rightarrow> SearchVolumeResult list \<Rightarrow> state \<Rightarrow> SearchVolumeResult list outcome \<times> state" where
  "located_tasks [] results st = (Return results, st)"
| "located_tasks (task # rest) results st =
     (case py_get task ''status_code'' JNull of
        Inl e \<Rightarrow> (Raise e, st)
      | Inr code \<Rightarrow>
          if \<not> py_eq_int code 20000 then
            (case py_get task ''status_message'' JNull of
               Inl e \<Rightarrow> (Raise e, st)
             | Inr msg \<Rightarrow> located_tasks rest results (logger_error [Lit ''Task error: '', Val msg] st))
          else
            (case py_get task ''result'' (JList []) of
               Inl e \<Rightarrow> (Raise e, st)
             | Inr rs \<Rightarrow>
                 (case py_iter rs of
                    Inl e \<Rightarrow> (Raise e, st)
                  | Inr rlist \<Rightarrow>
                      (case located_results rlist results of
                         Inl e \<Rightarrow> (Raise e, st)
                       | Inr results' \<Rightarrow> located_tasks rest results' st))))"

definition get_search_volume_by_location ::
  "transport \<Rightarrow> string list \<Rightarrow> string option \<Rightarrow> int option \<Rightarrow> string option \<Rightarrow> state
     \<Rightarrow> SearchVolumeResult list outcome \<times> state" where
  "get_search_volume_by_location net keywords loc_name loc_code tag st =
     (if keywords = [] then
        (Raise (ValueError [Lit ''Keywords list cannot be empty'']), st)
      else if \<not> (truthy_str loc_name \<or> truthy_int loc_code) then
        (Raise (ValueError [Lit ''Either location_name or location_code is required'']), st)
      else
        (case make_request net ''POST''
                ''keywords_data/clickstream_data/search_volume_by_location/live''
                (Some (JList [JObj (set_tag tag
                                      (set_location loc_name loc_code
                                         [(''keywords'', JList (map JStr keywords))]))]))
                st of
           (Return response, st') \<Rightarrow>
             (case tasks_of response of
                Inl e \<Rightarrow> (Raise e, st')
              | Inr tasks \<Rightarrow> located_tasks tasks [] st')
         | (Raise e, st') \<Rightarrow> (Raise e, st')
         | (Hang, st') \<Rightarrow> (Hang, st')))"

section \<open>Vocabulary of the properties\<close>

text \<open>
  What the properties below say about arguments and responses, written as executable
  predicates. The shape of a response is the one of the provider's wire protocol: an
  object whose \<^verbatim>\<open>tasks\<close> is a list of objects, the \<^verbatim>\<open>result\<close> of a task that succeeded
  a list of objects.
\<close>

definition lookup :: "json \<Rightarrow> string \<Rightarrow> json option" where
  "lookup v k = (case v of JObj d \<Rightarrow> map_of d k | _ \<Rightarrow> None)"

definition is_object :: "json \<Rightarrow> bool" where
  "is_object v = (case v of JObj d \<Rightarrow> True | _ \<Rightarrow> False)"

definition elements :: "json option \<Rightarrow> json list" where
  "elements v = (case v of Some (JList xs) \<Rightarrow> xs | _ \<Rightarrow> [])"

definition list_of_objects :: "json option \<Rightarrow> bool" where
  "list_of_objects v =
     (case v of None \<Rightarrow> True | Some (JList xs) \<Rightarrow> list_all is_object xs | _ \<Rightarrow> False)"

text \<open>The status code of an envelope or of a task is the success code.\<close>

definition succeeds :: "json \<Rightarrow> bool" where
  "succeeds v = (case lookup v ''status_code'' of Some c \<Rightarrow> py_eq_int c 20000 | None \<Rightarrow> False)"

definition response_tasks :: "json \<Rightarrow> json list" where
  "response_tasks response = elements (lookup response ''tasks'')"

definition task_results :: "json \<Rightarrow> json list" where
  "task_results task = elements (lookup task ''result'')"

definition result_items :: "json \<Rightarrow> json list" where
  "result_items result = elements (lookup result ''items'')"

definition wf_task :: "json \<Rightarrow> bool" where
  "wf_task task = (is_object task \<and> (\<not> succeeds task \<or> list_of_objects (lookup task ''result'')))"

definition wf_response :: "json \<Rightarrow> bool" where
  "wf_response response =
     (is_object response \<and> list_of_objects (lookup response ''tasks'')
      \<and> list_all wf_task (response_tasks response))"

text \<open>The same, for the two operations that read \<^verbatim>\<open>result[].items[]\<close>.\<close>

definition wf_nested_task :: "json \<Rightarrow> bool" where
  "wf_nested_task task =
     (is_object task \<and>
      (\<not> succeeds task \<or>
       (list_of_objects (lookup task ''result'')
        \<and> list_all (\<lambda>result. list_of_objects (lookup result ''items'')) (task_results task))))"

definition wf_nested_response :: "json \<Rightarrow> bool" where
  "wf_nested_response response =
     (is_object response \<and> list_of_objects (lookup response ''tasks'')
      \<and> list_all wf_nested_task (response_tasks response))"

definition nested_items :: "json list \<Rightarrow> json list" where
  "nested_items tasks = concat (map result_items (concat (map task_results tasks)))"

definition has_both :: "json \<Rightarrow> bool" where
  "has_both item = (lookup item ''keyword'' \<noteq> None \<and> lookup item ''search_volume'' \<noteq> None)"

definition field_or :: "json \<Rightarrow> string \<Rightarrow> json \<Rightarrow> json" where
  "field_or v k dflt = (case lookup v k of Some x \<Rightarrow> x | None \<Rightarrow> dflt)"

text \<open>A record carries the fields of a result item, each as received.\<close>

definition copied :: "json \<Rightarrow> SearchVolumeResult \<Rightarrow> bool" where
  "copied item r =
     (lookup item ''keyword'' = Some (keyword r)
      \<and> lookup item ''search_volume'' = Some (search_volume r)
      \<and> monthly_searches r = field_or item ''monthly_searches'' (JList [])
      \<and> location_code r = field_or item ''location_code'' JNull
      \<and> language_code r = field_or item ''language_code'' JNull
      \<and> use_clickstream r = field_or item ''use_clickstream'' (JBool True))"

text \<open>The same for the records built from \<^verbatim>\<open>result[].items[]\<close>.\<close>

definition copied_global :: "json \<Rightarrow> GlobalSearchVolumeResult \<Rightarrow> bool" where
  "copied_global item r =
     (lookup item ''keyword'' = Some (global_keyword r)
      \<and> lookup item ''search_volume'' = Some (global_search_volume r)
      \<and> country_distribution r = field_or item ''country_distribution'' (JList []))"

definition copied_item :: "json \<Rightarrow> SearchVolumeResult \<Rightarrow> bool" where
  "copied_item item r =
     (lookup item ''keyword'' = Some (keyword r)
      \<and> lookup item ''search_volume'' = Some (search_volume r)
      \<and> monthly_searches r = field_or item ''monthly_searches'' (JList []))"

text \<open>The \<^verbatim>\<open>KeyError\<close> of an item that lacks one of the two fields.\<close>

definition missing_field :: "exception \<Rightarrow> bool" where
  "missing_field e = (e = KeyError ''keyword'' \<or> e = KeyError ''search_volume'')"

text \<open>The log has the \<^verbatim>\<open>Task error\<close> record of every task that does not succeed.\<close>

definition failures_logged :: "json list \<Rightarrow> state \<Rightarrow> bool" where
  "failures_logged tasks st =
     (\<forall>task\<in>set tasks. \<not> succeeds task \<longrightarrow>
        Error [Lit ''Task error: '', Val (field_or task ''status_message'' JNull)] \<in> set (logged st))"

text \<open>The arguments pass the checks an operation makes before it builds its payload.\<close>

definition search_volume_args_ok ::
  "string list \<Rightarrow> string option \<Rightarrow> int option \<Rightarrow> string option \<Rightarrow> string option \<Rightarrow> bool" where
  "search_volume_args_ok keywords loc_name loc_code lang_name lang_code =
     (keywords \<noteq> [] \<and> length keywords \<le> 1000
      \<and> (truthy_str loc_name \<or> truthy_int loc_code)
      \<and> (truthy_str lang_name \<or> truthy_str lang_code))"

definition global_args_ok :: "string list \<Rightarrow> bool" where
  "global_args_ok keywords =
     (keywords \<noteq> [] \<and> length keywords \<le> 1000 \<and> list_all (\<lambda>kw. 3 \<le> length kw) keywords)"

definition by_location_args_ok :: "string list \<Rightarrow> string option \<Rightarrow> int option \<Rightarrow> bool" where
  "by_location_args_ok keywords loc_name loc_code =
     (keywords \<noteq> [] \<and> (truthy_str loc_name \<or> truthy_int loc_code))"

text \<open>The URL a request for an endpoint goes to.\<close>

definition endpoint_url :: "state \<Rightarrow> string \<Rightarrow> string" where
  "endpoint_url st endpoint = base_url st @ ''/'' @ dropWhile (\<lambda>c. c = CHR ''/'') endpoint"

text \<open>What \<^verbatim>\<open>_make_request\<close> raises for a failure of the transport.\<close>

definition raised_for :: "transport_error \<Rightarrow> exception" where
  "raised_for e =
     (case e of
        ClientError msg \<Rightarrow> DataForSEOError [Lit ''Request failed: '', Val (JStr msg)]
      | Unclassified cls msg \<Rightarrow> Other cls msg)"

text \<open>
  The error \<^verbatim>\<open>_make_request\<close> raises for an envelope that does not succeed: it carries the
  envelope's status code and its status message (or \<^verbatim>\<open>Unknown error\<close> when it has none).
\<close>

definition api_error :: "json \<Rightarrow> exception" where
  "api_error response =
     DataForSEOError
       [Lit ''API error '', Val (field_or response ''status_code'' JNull), Lit '': '',
        Val (field_or response ''status_message'' (JStr ''Unknown error''))]"

text \<open>A step changed nothing but the log.\<close>

definition only_logs :: "state \<Rightarrow> state \<Rightarrow> bool" where
  "only_logs st st' =
     (base_url st' = base_url st \<and> credentials st' = credentials st
      \<and> rate_limiter st' = rate_limiter st \<and> session st' = session st
      \<and> calls st' = calls st)"

text \<open>The client object is the same in two states.\<close>

definition same_client :: "state \<Rightarrow> state \<Rightarrow> bool" where
  "same_client st st' =
     (base_url st' = base_url st \<and> credentials st' = credentials st
      \<and> rate_limiter st' = rate_limiter st \<and> session st' = session st)"

text \<open>The exceptions that \<^verbatim>\<open>.get\<close>, \<^verbatim>\<open>in\<close>, \<^verbatim>\<open>[...]\<close> and \<^verbatim>\<open>for\<close> raise.\<close>

definition access_error :: "exception \<Rightarrow> bool" where
  "access_error e = (case e of KeyError k \<Rightarrow> True | TypeError \<Rightarrow> True
                     | AttributeError \<Rightarrow> True | _ \<Rightarrow> False)"

definition is_value_error :: "exception \<Rightarrow> bool" where
  "is_value_error e = (case e of ValueError m \<Rightarrow> True | _ \<Rightarrow> False)"

text \<open>
  Two transports for concrete runs: a fixture that answers every request with one
  response, and one that refuses a closed session the way the HTTP library does.
\<close>

definition fixture :: "int \<Rightarrow> json \<Rightarrow> transport" where
  "fixture status response = (\<lambda>cs s req. Responds status response)"

definition refusing_closed :: "transport \<Rightarrow> transport" where
  "refusing_closed net =
     (\<lambda>cs s req. if closed s then Send_fails (Unclassified ''RuntimeError'' ''Session is closed'')
                  else net cs s req)"

section \<open>Concrete runs\<close>

text \<open>
  A client that was never entered, one inside its scope, and one whose scope was left;
  and responses of the provider to run the operations on. The monthly figures of the
  first item are not in chronological order.
\<close>

definition not_initialized :: exception where
  "not_initialized = DataForSEOError [Lit ''Client not initialized. Use async context manager.'']"

definition unacquired :: state where
  "unacquired = init ''login'' ''password'' 12"

definition acquired :: state where
  "acquired = aenter unacquired"

definition released :: state where
  "released = aexit acquired"

definition open_session :: client_session where
  "open_session = \<lparr>timeout_total = 30, closed = False\<rparr>"

definition month :: "int \<Rightarrow> int \<Rightarrow> int \<Rightarrow> json" where
  "month y m v = JObj [(''year'', JInt y), (''month'', JInt m), (''search_volume'', JInt v)]"

definition item_seo :: json where
  "item_seo =
     JObj [(''keyword'', JStr ''seo tools''), (''search_volume'', JInt 1000),
           (''monthly_searches'', JList [month 2024 2 900, month 2023 12 1200, month 2024 1 1100])]"

definition item_research :: json where
  "item_research = JObj [(''keyword'', JStr ''keyword research''), (''search_volume'', JInt 500)]"

definition item_no_volume :: json where
  "item_no_volume = JObj [(''keyword'', JStr ''unknown phrase'')]"

definition ok_response :: json where
  "ok_response =
     JObj [(''status_code'', JInt 20000), (''status_message'', JStr ''Ok.''),
           (''tasks'', JList [JObj [(''status_code'', JInt 20000), (''status_message'', JStr ''Ok.''),
                                    (''result'', JList [item_seo, item_no_volume, item_research])]])]"

definition partial_response :: json where
  "partial_response =
     JObj [(''status_code'', JInt 20000), (''status_message'', JStr ''Ok.''),
           (''tasks'', JList [JObj [(''status_code'', JInt 40501),
                                    (''status_message'', JStr ''Invalid Field''),
                                    (''result'', JNull)],
                              JObj [(''status_code'', JInt 20000), (''status_message'', JStr ''Ok.''),
                                    (''result'', JList [item_research])]])]"

definition error_response :: json where
  "error_response =
     JObj [(''status_code'', JInt 40100), (''status_message'', JStr ''Not authorized'')]"

definition nested_response :: json where
  "nested_response =
     JObj [(''status_code'', JInt 20000), (''status_message'', JStr ''Ok.''),
           (''tasks'', JList [JObj [(''status_code'', JInt 20000),
                                    (''result'', JList [JObj [(''location_code'', JInt 2840),
                                                              (''items'', JList [item_research,
                                                                                 item_no_volume])]])]])]"

definition nested_partial_response :: json where
  "nested_partial_response =
     JObj [(''status_code'', JInt 20000), (''status_message'', JStr ''Ok.''),
           (''tasks'', JList [JObj [(''status_code'', JInt 40501),
                                    (''status_message'', JStr ''Invalid Field''),
                                    (''result'', JNull)],
                              JObj [(''status_code'', JInt 20000),
                                    (''result'', JList [JObj [(''location_code'', JInt 2840),
                                                              (''items'', JList [item_seo])]])]])]"

section \<open>Properties of request execution\<close>

lemma on_transport_error_fst:
  "fst (on_transport_error method url e st) = Raise (raised_for e)"
  by (cases e) (simp_all add: on_transport_error_def raised_for_def)

lemma on_transport_error_snd:
  "\<exists>lg. snd (on_transport_error method url e st) = st\<lparr>logged := logged st @ lg\<rparr>"
  by (cases e) (auto simp: on_transport_error_def logger_error_def logger_error_exc_def)

lemma attempt_outcome:
  "fst (attempt net s method url data st) =
     (case net (calls st) s (request_for method (url) data) of
        Send_fails e \<Rightarrow> Raise (raised_for e)
      | Decode_fails status e \<Rightarrow> Raise (raised_for e)
      | Responds status response \<Rightarrow> check_envelope response)"
proof -
  let ?req = "request_for method (url) data"
  show ?thesis
  proof (cases "net (calls st) s ?req")
    case (Send_fails e)
    then show ?thesis
      by (simp add: attempt_def Let_def logger_info_def on_transport_error_fst)
  next
    case (Decode_fails status e)
    then show ?thesis
      by (simp add: attempt_def Let_def logger_info_def on_transport_error_fst)
  next
    case (Responds status response)
    then show ?thesis
      by (cases "check_envelope response") (simp_all add: attempt_def Let_def logger_info_def)
  qed
qed

lemma attempt_frame:
  "\<exists>lg. snd (attempt net s method url data st) =
     st\<lparr>calls := calls st @ [request_for method (url) data],
        logged := logged st @ lg\<rparr>"
proof -
  let ?req = "request_for method (url) data"
  let ?st1 = "logger_info [Lit (method @ '' '' @ url)] st"
  let ?st2 = "?st1\<lparr>calls := calls ?st1 @ [?req]\<rparr>"
  show ?thesis
  proof (cases "net (calls st) s ?req")
    case (Send_fails e)
    obtain lg where "snd (on_transport_error method url e ?st2) = ?st2\<lparr>logged := logged ?st2 @ lg\<rparr>"
      using on_transport_error_snd by blast
    then have "snd (attempt net s method url data st) =
       st\<lparr>calls := calls st @ [?req], logged := logged st @ (Info [Lit (method @ '' '' @ url)] # lg)\<rparr>"
      using Send_fails by (simp add: attempt_def Let_def logger_info_def)
    then show ?thesis by blast
  next
    case (Decode_fails status e)
    let ?st3 = "logger_info (response_line method url status) ?st2"
    obtain lg where "snd (on_transport_error method url e ?st3) = ?st3\<lparr>logged := logged ?st3 @ lg\<rparr>"
      using on_transport_error_snd by blast
    then have "snd (attempt net s method url data st) =
       st\<lparr>calls := calls st @ [?req],
          logged := logged st @ (Info [Lit (method @ '' '' @ url)] # Info (response_line method url status) # lg)\<rparr>"
      using Decode_fails by (simp add: attempt_def Let_def logger_info_def)
    then show ?thesis by blast
  next
    case (Responds status response)
    show ?thesis
    proof (cases "check_envelope response")
      case (Raise e)
      have "snd (attempt net s method url data st) =
        st\<lparr>calls := calls st @ [?req],
           logged := logged st @ [Info [Lit (method @ '' '' @ url)], Info (response_line method url status),
             Error_exc [Lit (method @ '' '' @ url @ '' - ERROR - ''), Elapsed, Lit ''s - ''] e]\<rparr>"
        using Responds Raise by (simp add: attempt_def Let_def logger_info_def logger_error_exc_def)
      then show ?thesis by blast
    next
      case (Return x)
      have "snd (attempt net s method url data st) =
        st\<lparr>calls := calls st @ [?req],
           logged := logged st @ [Info [Lit (method @ '' '' @ url)], Info (response_line method url status)]\<rparr>"
        using Responds Return by (simp add: attempt_def Let_def logger_info_def)
      then show ?thesis by blast
    next
      case Hang
      have "snd (attempt net s method url data st) =
        st\<lparr>calls := calls st @ [?req],
           logged := logged st @ [Info [Lit (method @ '' '' @ url)], Info (response_line method url status)]\<rparr>"
        using Responds Hang by (simp add: attempt_def Let_def logger_info_def)
      then show ?thesis by blast
    qed
  qed
qed

lemma make_request_outcome:
  "fst (make_request net method endpoint data st) =
    (case session st of
       None \<Rightarrow> Raise (DataForSEOError [Lit ''Client not initialized. Use async context manager.''])
     | Some s \<Rightarrow>
         if rate_limiter st = 0 then Hang
         else (case net (calls st) s
                      (request_for method (endpoint_url st endpoint) data) of
                 Send_fails e \<Rightarrow> Raise (raised_for e)
               | Decode_fails status e \<Rightarrow> Raise (raised_for e)
               | Responds status response \<Rightarrow> check_envelope response))"
proof (cases "session st")
  case None
  then show ?thesis by (simp add: make_request_def)
next
  case (Some s)
  show ?thesis
  proof (cases "rate_limiter st = 0")
    case True
    with Some show ?thesis by (simp add: make_request_def)
  next
    case False
    let ?st0 = "st\<lparr>rate_limiter := rate_limiter st - 1\<rparr>"
    have "fst (make_request net method endpoint data st) =
          fst (attempt net s method (endpoint_url st endpoint) data ?st0)"
      using Some False by (simp add: make_request_def endpoint_url_def Let_def split: prod.splits)
    then show ?thesis using Some False by (simp add: attempt_outcome)
  qed
qed

lemma make_request_issued:
  assumes "session st = Some s" and "0 < rate_limiter st"
  shows "\<exists>lg. snd (make_request net method endpoint data st) =
     st\<lparr>calls := calls st @
              [request_for method (endpoint_url st endpoint) data],
        logged := logged st @ lg\<rparr>"
proof -
  let ?url = "endpoint_url st endpoint"
  let ?st0 = "st\<lparr>rate_limiter := rate_limiter st - 1\<rparr>"
  let ?req = "request_for method (?url) data"
  obtain out st' where a: "attempt net s method ?url data ?st0 = (out, st')"
    by (cases "attempt net s method ?url data ?st0") auto
  from attempt_frame[of net s "method" ?url data ?st0] a
  obtain lg where st': "st' = ?st0\<lparr>calls := calls ?st0 @ [?req], logged := logged ?st0 @ lg\<rparr>"
    by auto
  have "snd (make_request net method endpoint data st) = st'\<lparr>rate_limiter := rate_limiter st' + 1\<rparr>"
    using assms a by (simp add: make_request_def endpoint_url_def Let_def)
  also have "\<dots> = st\<lparr>calls := calls st @ [?req], logged := logged st @ lg\<rparr>"
    using assms by (simp add: st')
  finally show ?thesis by blast
qed

lemma make_request_frame:
  "\<exists>cs lg. snd (make_request net method endpoint data st) =
     st\<lparr>calls := calls st @ cs, logged := logged st @ lg\<rparr>"
proof (cases "session st")
  case None
  have "snd (make_request net method endpoint data st) =
          st\<lparr>calls := calls st @ [], logged := logged st @ []\<rparr>"
    using None by (simp add: make_request_def)
  then show ?thesis by blast
next
  case (Some s)
  show ?thesis
  proof (cases "rate_limiter st = 0")
    case True
    have "snd (make_request net method endpoint data st) =
            st\<lparr>calls := calls st @ [], logged := logged st @ []\<rparr>"
      using True Some by (simp add: make_request_def)
    then show ?thesis by blast
  next
    case False
    with Some make_request_issued[of st s net "method" "endpoint" data] show ?thesis by blast
  qed
qed

lemma make_request_blocked_or_unacquired:
  assumes "session st = None \<or> rate_limiter st = 0"
  shows "snd (make_request net method endpoint data st) = st"
  using assms by (auto simp: make_request_def split: option.splits)

section \<open>Properties of the walk over a response\<close>

lemma object_get: "is_object v \<Longrightarrow> py_get v k dflt = Inr (field_or v k dflt)"
  by (cases v) (simp_all add: is_object_def field_or_def lookup_def)

lemma object_getitem:
  "is_object v \<Longrightarrow>
   py_getitem v k = (case lookup v k of Some x \<Rightarrow> Inr x | None \<Rightarrow> Inl (KeyError k))"
  by (cases v) (simp_all add: is_object_def lookup_def)

lemma object_contains: "is_object v \<Longrightarrow> py_contains k v = Inr (lookup v k \<noteq> None)"
  by (cases v) (simp_all add: is_object_def lookup_def)

lemma object_status:
  "is_object v \<Longrightarrow> \<exists>code. py_get v ''status_code'' JNull = Inr code \<and> py_eq_int code 20000 = succeeds v"
  by (cases v) (auto simp: is_object_def succeeds_def lookup_def split: option.splits)

lemma object_list:
  assumes "is_object v" and "list_of_objects (lookup v k)"
  shows "\<exists>x. py_get v k (JList []) = Inr x \<and> py_iter x = Inr (elements (lookup v k))
             \<and> list_all is_object (elements (lookup v k))"
proof (cases "lookup v k")
  case None
  with assms show ?thesis by (simp add: object_get field_or_def elements_def)
next
  case (Some x)
  with assms obtain xs where "x = JList xs" "list_all is_object xs"
    by (cases x) (simp_all add: list_of_objects_def)
  with Some assms show ?thesis by (simp add: object_get field_or_def elements_def)
qed

lemma construct_result_copied:
  assumes "is_object item" and "has_both item"
  shows "\<exists>r. construct_result item = Inr r \<and> copied item r"
proof -
  from assms(2) obtain k v where kv: "lookup item ''keyword'' = Some k" "lookup item ''search_volume'' = Some v"
    by (auto simp: has_both_def)
  let ?r = "\<lparr>keyword = k, search_volume = v,
             monthly_searches = field_or item ''monthly_searches'' (JList []),
             location_code = field_or item ''location_code'' JNull,
             language_code = field_or item ''language_code'' JNull,
             use_clickstream = field_or item ''use_clickstream'' (JBool True)\<rparr>"
  have "construct_result item = Inr ?r"
    using assms(1) kv by (simp add: construct_result_def object_get object_getitem)
  moreover have "copied item ?r"
    using kv by (simp add: copied_def)
  ultimately show ?thesis by blast
qed

lemma search_volume_results_skip:
  assumes "is_object item" and "\<not> has_both item"
  shows "search_volume_results (item # rest) results st = search_volume_results rest results st"
  using assms by (cases "lookup item ''keyword'' = None") (simp_all add: object_contains has_both_def)

lemma search_volume_results_take:
  assumes "is_object item" and "has_both item" and "construct_result item = Inr r"
  shows "search_volume_results (item # rest) results st =
         search_volume_results rest (results @ [r])
           (logger_info [Lit ''Processed keyword: '', Val (keyword r),
                         Lit '' - Volume: '', Val (search_volume r)] st)"
  using assms by (simp add: object_contains has_both_def)

lemma search_volume_results_objects:
  assumes "list_all is_object items"
  shows "\<exists>rs lg. search_volume_results items results st =
                   (Return (results @ rs), st\<lparr>logged := logged st @ lg\<rparr>)
                 \<and> list_all2 copied (filter has_both items) rs"
  using assms
proof (induction items arbitrary: results st)
  case Nil
  have "search_volume_results [] results st = (Return (results @ []), st\<lparr>logged := logged st @ []\<rparr>)
        \<and> list_all2 copied (filter has_both []) []"
    by simp
  then show ?case by blast
next
  case (Cons item rest)
  then have obj: "is_object item" and rest: "list_all is_object rest" by simp_all
  show ?case
  proof (cases "has_both item")
    case False
    from Cons.IH[OF rest, of results st] obtain rs lg where
      "search_volume_results rest results st = (Return (results @ rs), st\<lparr>logged := logged st @ lg\<rparr>)"
      "list_all2 copied (filter has_both rest) rs" by blast
    then have "search_volume_results (item # rest) results st =
                 (Return (results @ rs), st\<lparr>logged := logged st @ lg\<rparr>)
               \<and> list_all2 copied (filter has_both (item # rest)) rs"
      using False obj by (simp add: search_volume_results_skip del: search_volume_results.simps)
    then show ?thesis by blast
  next
    case True
    with obj obtain r where r: "construct_result item = Inr r" "copied item r"
      using construct_result_copied by blast
    let ?m = "[Lit ''Processed keyword: '', Val (keyword r), Lit '' - Volume: '', Val (search_volume r)]"
    let ?st = "logger_info ?m st"
    from Cons.IH[OF rest, of "results @ [r]" ?st] obtain rs lg where
      rs: "search_volume_results rest (results @ [r]) ?st =
             (Return ((results @ [r]) @ rs), ?st\<lparr>logged := logged ?st @ lg\<rparr>)"
          "list_all2 copied (filter has_both rest) rs" by blast
    have "search_volume_results (item # rest) results st =
            (Return (results @ (r # rs)), st\<lparr>logged := logged st @ (Info ?m # lg)\<rparr>)"
      using rs(1) by (simp add: search_volume_results_take[OF obj True r(1)] logger_info_def
                        del: search_volume_results.simps)
    moreover have "list_all2 copied (filter has_both (item # rest)) (r # rs)"
      using True r(2) rs(2) by simp
    ultimately show ?thesis by blast
  qed
qed


lemma search_volume_tasks_failing:
  assumes "is_object task" and "\<not> succeeds task"
  shows "search_volume_tasks (task # rest) results st =
         search_volume_tasks rest results
           (logger_error [Lit ''Task data: '', Val (field_or task ''data'' JNull)]
              (logger_error [Lit ''Task error: '', Val (field_or task ''status_message'' JNull)] st))"
proof -
  from object_status[OF assms(1)] assms(2) obtain code where
    "py_get task ''status_code'' JNull = Inr code" "\<not> py_eq_int code 20000" by auto
  then show ?thesis by (simp add: object_get[OF assms(1)])
qed

lemma search_volume_tasks_succeeding:
  assumes "is_object task" and "succeeds task" and "list_of_objects (lookup task ''result'')"
  shows "search_volume_tasks (task # rest) results st =
         (case search_volume_results (task_results task) results st of
            (Return results', st') \<Rightarrow> search_volume_tasks rest results' st'
          | (Raise e, st') \<Rightarrow> (Raise e, st')
          | (Hang, st') \<Rightarrow> (Hang, st'))"
proof -
  from object_status[OF assms(1)] assms(2) obtain code where
    c: "py_get task ''status_code'' JNull = Inr code" "py_eq_int code 20000" by auto
  from object_list[OF assms(1,3)] obtain x where
    x: "py_get task ''result'' (JList []) = Inr x" "py_iter x = Inr (task_results task)"
    by (auto simp: task_results_def)
  show ?thesis using c x by simp
qed

lemma search_volume_tasks_wf:
  assumes "list_all wf_task tasks"
  shows "\<exists>rs lg. search_volume_tasks tasks results st =
                   (Return (results @ rs), st\<lparr>logged := logged st @ lg\<rparr>)
                 \<and> list_all2 copied
                      (filter has_both (concat (map task_results (filter succeeds tasks)))) rs
                 \<and> (\<forall>task\<in>set tasks. \<not> succeeds task \<longrightarrow>
                       Error [Lit ''Task error: '', Val (field_or task ''status_message'' JNull)]
                         \<in> set lg)"
  using assms
proof (induction tasks arbitrary: results st)
  case Nil
  have "search_volume_tasks [] results st = (Return (results @ []), st\<lparr>logged := logged st @ []\<rparr>)
        \<and> list_all2 copied (filter has_both (concat (map task_results (filter succeeds [])))) []
        \<and> (\<forall>task\<in>set []. \<not> succeeds task \<longrightarrow>
               Error [Lit ''Task error: '', Val (field_or task ''status_message'' JNull)] \<in> set [])"
    by simp
  then show ?case by blast
next
  case (Cons task rest)
  from Cons.prems have wf: "wf_task task" and rest: "list_all wf_task rest" by simp_all
  from wf have obj: "is_object task"
    and shape: "\<not> succeeds task \<or> list_of_objects (lookup task ''result'')"
    by (simp_all add: wf_task_def)
  show ?case
  proof (cases "succeeds task")
    case False
    let ?e = "Error [Lit ''Task error: '', Val (field_or task ''status_message'' JNull)]"
    let ?d = "Error [Lit ''Task data: '', Val (field_or task ''data'' JNull)]"
    let ?st = "logger_error [Lit ''Task data: '', Val (field_or task ''data'' JNull)]
                 (logger_error [Lit ''Task error: '', Val (field_or task ''status_message'' JNull)] st)"
    from Cons.IH[OF rest, of results ?st] obtain rs lg where
      ih: "search_volume_tasks rest results ?st = (Return (results @ rs), ?st\<lparr>logged := logged ?st @ lg\<rparr>)"
          "list_all2 copied (filter has_both (concat (map task_results (filter succeeds rest)))) rs"
          "\<forall>t\<in>set rest. \<not> succeeds t \<longrightarrow>
               Error [Lit ''Task error: '', Val (field_or t ''status_message'' JNull)] \<in> set lg"
      by blast
    have "search_volume_tasks (task # rest) results st =
            (Return (results @ rs), st\<lparr>logged := logged st @ (?e # ?d # lg)\<rparr>)"
      using ih(1) by (simp add: search_volume_tasks_failing[OF obj False] logger_error_def
                        del: search_volume_tasks.simps)
    moreover have "list_all2 copied
        (filter has_both (concat (map task_results (filter succeeds (task # rest))))) rs"
      using False ih(2) by simp
    moreover have "\<forall>t\<in>set (task # rest). \<not> succeeds t \<longrightarrow>
        Error [Lit ''Task error: '', Val (field_or t ''status_message'' JNull)] \<in> set (?e # ?d # lg)"
      using ih(3) by simp
    ultimately show ?thesis by blast
  next
    case True
    with shape have lo: "list_of_objects (lookup task ''result'')" by simp
    with obj have objs: "list_all is_object (task_results task)"
      using object_list task_results_def by metis
    from search_volume_results_objects[OF objs, of results st] obtain rs1 lg1 where
      r1: "search_volume_results (task_results task) results st =
             (Return (results @ rs1), st\<lparr>logged := logged st @ lg1\<rparr>)"
          "list_all2 copied (filter has_both (task_results task)) rs1"
      by blast
    let ?st = "st\<lparr>logged := logged st @ lg1\<rparr>"
    from Cons.IH[OF rest, of "results @ rs1" ?st] obtain rs lg where
      ih: "search_volume_tasks rest (results @ rs1) ?st =
             (Return ((results @ rs1) @ rs), ?st\<lparr>logged := logged ?st @ lg\<rparr>)"
          "list_all2 copied (filter has_both (concat (map task_results (filter succeeds rest)))) rs"
          "\<forall>t\<in>set rest. \<not> succeeds t \<longrightarrow>
               Error [Lit ''Task error: '', Val (field_or t ''status_message'' JNull)] \<in> set lg"
      by blast
    have "search_volume_tasks (task # rest) results st =
            (Return (results @ (rs1 @ rs)), st\<lparr>logged := logged st @ (lg1 @ lg)\<rparr>)"
      using r1(1) ih(1) by (simp add: search_volume_tasks_succeeding[OF obj True lo]
                              del: search_volume_tasks.simps)
    moreover have "list_all2 copied
        (filter has_both (concat (map task_results (filter succeeds (task # rest))))) (rs1 @ rs)"
      using True r1(2) ih(2) by (simp add: list_all2_appendI)
    moreover have "\<forall>t\<in>set (task # rest). \<not> succeeds t \<longrightarrow>
        Error [Lit ''Task error: '', Val (field_or t ''status_message'' JNull)] \<in> set (lg1 @ lg)"
      using True ih(3) by simp
    ultimately show ?thesis by blast
  qed
qed

section \<open>What the walk leaves unchanged, and what it depends on\<close>

lemma only_logs_refl: "only_logs st st"
  by (simp add: only_logs_def)

lemma only_logs_trans: "only_logs st st' \<Longrightarrow> only_logs st' st'' \<Longrightarrow> only_logs st st''"
  by (simp add: only_logs_def)

lemma only_logs_info: "only_logs st (logger_info m st)"
  by (simp add: only_logs_def logger_info_def)

lemma only_logs_error: "only_logs st (logger_error m st)"
  by (simp add: only_logs_def logger_error_def)

lemma search_volume_results_only_logs:
  "only_logs st (snd (search_volume_results items results st))"
proof (induction items arbitrary: results st)
  case Nil
  show ?case by (simp add: only_logs_refl)
next
  case (Cons item rest)
  have step: "\<And>r m. only_logs st (snd (search_volume_results rest r (logger_info m st)))"
    using Cons.IH only_logs_info only_logs_trans by blast
  show ?case
    by (simp add: only_logs_refl Cons.IH step split: sum.splits)
qed

lemma search_volume_results_outcome:
  "fst (search_volume_results items results st) = fst (search_volume_results items results st')"
proof (induction items arbitrary: results st st')
  case Nil
  show ?case by simp
next
  case (Cons item rest)
  show ?case
    using Cons.IH by (simp split: sum.splits)
qed

lemma search_volume_tasks_only_logs:
  "only_logs st (snd (search_volume_tasks tasks results st))"
proof (induction tasks arbitrary: results st)
  case Nil
  show ?case by (simp add: only_logs_refl)
next
  case (Cons task rest)
  have failing: "\<And>m d. only_logs st (snd (search_volume_tasks rest results
                   (logger_error d (logger_error m st))))"
    using Cons.IH only_logs_error only_logs_trans by blast
  have succeeding: "\<And>items r st'. search_volume_results items results st = (Return r, st')
                      \<Longrightarrow> only_logs st (snd (search_volume_tasks rest r st'))"
  proof -
    fix items r st'
    assume "search_volume_results items results st = (Return r, st')"
    then have "only_logs st st'"
      using search_volume_results_only_logs[of st items results] by simp
    then show "only_logs st (snd (search_volume_tasks rest r st'))"
      using Cons.IH only_logs_trans by blast
  qed
  have inner: "\<And>items out st'. search_volume_results items results st = (out, st')
                      \<Longrightarrow> only_logs st st'"
    using search_volume_results_only_logs by (metis snd_conv)
  show ?case
    by (simp add: only_logs_refl only_logs_error failing succeeding inner
             split: sum.splits prod.splits outcome.splits)
qed

lemma search_volume_tasks_outcome:
  "fst (search_volume_tasks tasks results st) = fst (search_volume_tasks tasks results st')"
proof (induction tasks arbitrary: results st st')
  case Nil
  show ?case by simp
next
  case (Cons task rest)
  have inner: "\<And>items. fst (search_volume_results items results st)
                         = fst (search_volume_results items results st')"
    by (rule search_volume_results_outcome)
  show ?case
  proof (cases "py_get task ''status_code'' JNull")
    case (Inl e)
    then show ?thesis by simp
  next
    case code: (Inr code)
    show ?thesis
    proof (cases "py_eq_int code 20000")
      case False
      with code show ?thesis using Cons.IH by (simp split: sum.splits)
    next
      case True
      show ?thesis
      proof (cases "py_get task ''result'' (JList [])")
        case (Inl e)
        with code True show ?thesis by simp
      next
        case rs: (Inr rs)
        show ?thesis
        proof (cases "py_iter rs")
          case (Inl e)
          with code True rs show ?thesis by simp
        next
          case (Inr items)
          obtain out1 st1 where o1: "search_volume_results items results st = (out1, st1)"
            by (cases "search_volume_results items results st") auto
          obtain out2 st2 where o2: "search_volume_results items results st' = (out2, st2)"
            by (cases "search_volume_results items results st'") auto
          from inner[of items] o1 o2 have eq: "out2 = out1" by simp
          show ?thesis
            using code True rs Inr o1 o2 eq Cons.IH[of _ st1 st2]
            by (cases out1) simp_all
        qed
      qed
    qed
  qed
qed

lemma global_tasks_only_logs:
  "only_logs st (snd (global_tasks tasks results st))"
proof (induction tasks arbitrary: results st)
  case Nil
  show ?case by (simp add: only_logs_refl)
next
  case (Cons task rest)
  have failing: "\<And>m. only_logs st (snd (global_tasks rest results (logger_error m st)))"
    using Cons.IH only_logs_error only_logs_trans by blast
  show ?case
    by (simp add: only_logs_refl failing Cons.IH split: sum.splits)
qed

lemma global_tasks_outcome:
  "fst (global_tasks tasks results st) = fst (global_tasks tasks results st')"
proof (induction tasks arbitrary: results st st')
  case Nil
  show ?case by simp
next
  case (Cons task rest)
  show ?case using Cons.IH by (simp split: sum.splits)
qed

lemma located_tasks_only_logs:
  "only_logs st (snd (located_tasks tasks results st))"
proof (induction tasks arbitrary: results st)
  case Nil
  show ?case by (simp add: only_logs_refl)
next
  case (Cons task rest)
  have failing: "\<And>m. only_logs st (snd (located_tasks rest results (logger_error m st)))"
    using Cons.IH only_logs_error only_logs_trans by blast
  show ?case
    by (simp add: only_logs_refl failing Cons.IH split: sum.splits)
qed

lemma located_tasks_outcome:
  "fst (located_tasks tasks results st) = fst (located_tasks tasks results st')"
proof (induction tasks arbitrary: results st st')
  case Nil
  show ?case by simp
next
  case (Cons task rest)
  show ?case using Cons.IH by (simp split: sum.splits)
qed

section \<open>Properties of the operations\<close>

lemma check_envelope_succeeds:
  assumes "is_object response" and "succeeds response"
  shows "check_envelope response = Return response"
proof -
  from object_status[OF assms(1)] assms(2) obtain code where
    "py_get response ''status_code'' JNull = Inr code" "py_eq_int code 20000" by auto
  then show ?thesis by (simp add: check_envelope_def)
qed

lemma check_envelope_fails:
  assumes "is_object response" and "\<not> succeeds response"
  shows "check_envelope response = Raise (api_error response)"
proof -
  from object_status[OF assms(1)] assms(2)
  have "\<not> py_eq_int (field_or response ''status_code'' JNull) 20000"
    by (auto simp: object_get[OF assms(1)])
  then show ?thesis by (simp add: check_envelope_def api_error_def object_get[OF assms(1)])
qed

lemma tasks_of_response:
  assumes "is_object response" and "list_of_objects (lookup response ''tasks'')"
  shows "tasks_of response = Inr (response_tasks response)"
  using object_list[OF assms] by (auto simp: tasks_of_def response_tasks_def)

lemma make_request_client:
  "base_url (snd (make_request net method endpoint data st)) = base_url st
   \<and> credentials (snd (make_request net method endpoint data st)) = credentials st
   \<and> rate_limiter (snd (make_request net method endpoint data st)) = rate_limiter st
   \<and> session (snd (make_request net method endpoint data st)) = session st"
proof -
  from make_request_frame[of net "method" "endpoint" data st] obtain cs lg where
    "snd (make_request net method endpoint data st) = st\<lparr>calls := calls st @ cs, logged := logged st @ lg\<rparr>"
    by blast
  then show ?thesis by simp
qed

lemma make_request_cong:
  assumes "base_url st' = base_url st" and "rate_limiter st' = rate_limiter st"
    and "session st' = session st" and "net (calls st') = net (calls st)"
  shows "fst (make_request net method endpoint data st') = fst (make_request net method endpoint data st)"
proof (cases "session st")
  case None
  with assms show ?thesis by (simp add: make_request_outcome)
next
  case (Some s)
  with assms show ?thesis by (simp add: make_request_outcome endpoint_url_def)
qed

text \<open>An operation whose arguments are valid is its request followed by its walk.\<close>

lemma get_search_volume_unfold:
  assumes "search_volume_args_ok keywords loc_name loc_code lang_name lang_code"
    and "make_request net ''POST'' ''keywords_data/google/search_volume/live''
           (Some (JList [JObj (search_volume_payload keywords loc_name loc_code
                                 lang_name lang_code clickstream tag)])) st = (out, st')"
  shows "get_search_volume net keywords loc_name loc_code lang_name lang_code clickstream tag st =
           (case out of
              Return response \<Rightarrow>
                (case tasks_of response of
                   Inl e \<Rightarrow> (Raise e, st')
                 | Inr tasks \<Rightarrow> search_volume_tasks tasks [] st')
            | Raise e \<Rightarrow> (Raise e, st')
            | Hang \<Rightarrow> (Hang, st'))"
  using assms by (cases out) (simp_all add: get_search_volume_def search_volume_args_ok_def)

lemma get_search_volume_invalid:
  assumes "\<not> search_volume_args_ok keywords loc_name loc_code lang_name lang_code"
  shows "\<exists>m. get_search_volume net keywords loc_name loc_code lang_name lang_code clickstream tag st
             = (Raise (ValueError m), st)"
  using assms by (auto simp: get_search_volume_def search_volume_args_ok_def)

lemma check_keyword_lengths_long:
  "list_all (\<lambda>kw. 3 \<le> length kw) keywords \<Longrightarrow> check_keyword_lengths keywords = None"
  by (induction "keywords") simp_all

lemma get_global_search_volume_unfold:
  assumes "global_args_ok keywords"
    and "make_request net ''POST'' ''keywords_data/clickstream_data/search_volume_normalized/live''
           (Some (JList [JObj (set_tag tag [(''keywords'', JList (map JStr keywords))])])) st
         = (out, st')"
  shows "get_global_search_volume net keywords tag st =
           (case out of
              Return response \<Rightarrow>
                (case tasks_of response of
                   Inl e \<Rightarrow> (Raise e, st')
                 | Inr tasks \<Rightarrow> global_tasks tasks [] st')
            | Raise e \<Rightarrow> (Raise e, st')
            | Hang \<Rightarrow> (Hang, st'))"
proof -
  have "check_keyword_lengths keywords = None"
    using assms(1) by (simp add: global_args_ok_def check_keyword_lengths_long)
  then show ?thesis
    using assms by (cases out) (simp_all add: get_global_search_volume_def global_args_ok_def)
qed

lemma check_keyword_lengths_short:
  "\<exists>kw\<in>set keywords. length kw < 3 \<Longrightarrow> \<exists>m. check_keyword_lengths keywords = Some (ValueError m)"
  by (induction "keywords") auto

lemma get_global_search_volume_invalid:
  assumes "\<not> global_args_ok keywords"
  shows "\<exists>m. get_global_search_volume net keywords tag st = (Raise (ValueError m), st)"
proof (cases "keywords = [] \<or> 1000 < length keywords")
  case True
  then show ?thesis by (auto simp: get_global_search_volume_def)
next
  case False
  with assms have "\<exists>kw\<in>set keywords. length kw < 3"
    by (auto simp: global_args_ok_def list_all_iff not_le)
  then obtain m where "check_keyword_lengths keywords = Some (ValueError m)"
    using check_keyword_lengths_short by blast
  with False show ?thesis by (simp add: get_global_search_volume_def)
qed

lemma get_search_volume_by_location_unfold:
  assumes "by_location_args_ok keywords loc_name loc_code"
    and "make_request net ''POST'' ''keywords_data/clickstream_data/search_volume_by_location/live''
           (Some (JList [JObj (set_tag tag (set_location loc_name loc_code
                                  [(''keywords'', JList (map JStr keywords))]))])) st
         = (out, st')"
  shows "get_search_volume_by_location net keywords loc_name loc_code tag st =
           (case out of
              Return response \<Rightarrow>
                (case tasks_of response of
                   Inl e \<Rightarrow> (Raise e, st')
                 | Inr tasks \<Rightarrow> located_tasks tasks [] st')
            | Raise e \<Rightarrow> (Raise e, st')
            | Hang \<Rightarrow> (Hang, st'))"
  using assms by (cases out) (simp_all add: get_search_volume_by_location_def by_location_args_ok_def)

lemma get_search_volume_by_location_invalid:
  assumes "\<not> by_location_args_ok keywords loc_name loc_code"
  shows "\<exists>m. get_search_volume_by_location net keywords loc_name loc_code tag st
             = (Raise (ValueError m), st)"
  using assms by (auto simp: get_search_volume_by_location_def by_location_args_ok_def)

lemma make_request_responds:
  assumes "session st = Some s" and "0 < rate_limiter st"
    and "net (calls st) s (request_for method (endpoint_url st endpoint) data) = Responds status response"
  shows "\<exists>lg. make_request net method endpoint data st =
           (check_envelope response,
            st\<lparr>calls := calls st @ [request_for method (endpoint_url st endpoint) data],
               logged := logged st @ lg\<rparr>)"
proof -
  have "fst (make_request net method endpoint data st) = check_envelope response"
    using assms by (simp add: make_request_outcome)
  moreover from make_request_issued[OF assms(1,2)] obtain lg where
    "snd (make_request net method endpoint data st) =
       st\<lparr>calls := calls st @ [request_for method (endpoint_url st endpoint) data],
          logged := logged st @ lg\<rparr>"
    by blast
  ultimately have "make_request net method endpoint data st =
           (check_envelope response,
            st\<lparr>calls := calls st @ [request_for method (endpoint_url st endpoint) data],
               logged := logged st @ lg\<rparr>)"
    by (simp add: prod_eq_iff)
  then show ?thesis by blast
qed

lemma get_search_volume_walk:
  assumes "session st = Some s" and "0 < rate_limiter st"
    and "search_volume_args_ok keywords loc_name loc_code lang_name lang_code"
    and "\<And>req. net (calls st) s req = Responds status response"
    and "is_object response" and "succeeds response"
    and "list_of_objects (lookup response ''tasks'')"
  shows "\<exists>st'. get_search_volume net keywords loc_name loc_code lang_name lang_code clickstream tag st
               = search_volume_tasks (response_tasks response) [] st'"
proof -
  let ?data = "Some (JList [JObj (search_volume_payload keywords loc_name loc_code
                                      lang_name lang_code clickstream tag)])"
  have "net (calls st) s (request_for ''POST''
            (endpoint_url st ''keywords_data/google/search_volume/live'') ?data)
          = Responds status response"
    by (rule assms(4))
  from make_request_responds[of st s net, OF assms(1,2) this] obtain lg where
    "make_request net ''POST'' ''keywords_data/google/search_volume/live'' ?data st =
       (check_envelope response,
        st\<lparr>calls := calls st @ [request_for ''POST''
                  (endpoint_url st ''keywords_data/google/search_volume/live'') ?data],
           logged := logged st @ lg\<rparr>)"
    by blast
  then have "get_search_volume net keywords loc_name loc_code lang_name lang_code clickstream tag st
      = search_volume_tasks (response_tasks response) []
         (st\<lparr>calls := calls st @ [request_for ''POST''
                  (endpoint_url st ''keywords_data/google/search_volume/live'') ?data],
           logged := logged st @ lg\<rparr>)"
    using get_search_volume_unfold[OF assms(3)] check_envelope_succeeds[OF assms(5,6)]
          tasks_of_response[OF assms(5,7)]
    by simp
  then show ?thesis by blast
qed

lemma make_request_same_client: "same_client st (snd (make_request net m ep d st))"
  using make_request_client[of net m ep d st] by (simp add: same_client_def)

lemma after_request_only_logs:
  assumes "\<And>tasks. only_logs st' (snd (walk tasks st'))"
  shows "only_logs st'
           (snd (case out of
                   Return response \<Rightarrow>
                     (case tasks_of response of
                        Inl e \<Rightarrow> (Raise e, st')
                      | Inr tasks \<Rightarrow> walk tasks st')
                 | Raise e \<Rightarrow> (Raise e, st')
                 | Hang \<Rightarrow> (Hang, st')))"
  by (cases out) (simp_all add: only_logs_refl assms split: sum.splits)

lemma after_request_outcome:
  assumes "\<And>tasks. fst (walk tasks st1) = fst (walk tasks st2)"
  shows "fst (case out of
                   Return response \<Rightarrow>
                     (case tasks_of response of
                        Inl e \<Rightarrow> (Raise e, st1)
                      | Inr tasks \<Rightarrow> walk tasks st1)
                 | Raise e \<Rightarrow> (Raise e, st1)
                 | Hang \<Rightarrow> (Hang, st1))
       = fst (case out of
                   Return response \<Rightarrow>
                     (case tasks_of response of
                        Inl e \<Rightarrow> (Raise e, st2)
                      | Inr tasks \<Rightarrow> walk tasks st2)
                 | Raise e \<Rightarrow> (Raise e, st2)
                 | Hang \<Rightarrow> (Hang, st2))"
  by (cases out) (simp_all add: assms split: sum.splits)

lemma get_search_volume_state:
  assumes "search_volume_args_ok keywords loc_name loc_code lang_name lang_code"
  shows "only_logs
           (snd (make_request net ''POST'' ''keywords_data/google/search_volume/live''
                   (Some (JList [JObj (search_volume_payload keywords loc_name loc_code
                                         lang_name lang_code clickstream tag)])) st))
           (snd (get_search_volume net keywords loc_name loc_code lang_name lang_code
                   clickstream tag st))"
proof -
  let ?data = "Some (JList [JObj (search_volume_payload keywords loc_name loc_code
                                      lang_name lang_code clickstream tag)])"
  obtain out st' where
    mr: "make_request net ''POST'' ''keywords_data/google/search_volume/live'' ?data st = (out, st')"
    by (cases "make_request net ''POST'' ''keywords_data/google/search_volume/live'' ?data st") auto
  show ?thesis
    unfolding get_search_volume_unfold[OF assms mr] mr snd_conv
    by (rule after_request_only_logs) (rule search_volume_tasks_only_logs)
qed

lemma get_global_search_volume_state:
  assumes "global_args_ok keywords"
  shows "only_logs
           (snd (make_request net ''POST''
                   ''keywords_data/clickstream_data/search_volume_normalized/live''
                   (Some (JList [JObj (set_tag tag [(''keywords'', JList (map JStr keywords))])])) st))
           (snd (get_global_search_volume net keywords tag st))"
proof -
  let ?data = "Some (JList [JObj (set_tag tag [(''keywords'', JList (map JStr keywords))])])"
  obtain out st' where
    mr: "make_request net ''POST'' ''keywords_data/clickstream_data/search_volume_normalized/live''
           ?data st = (out, st')"
    by (cases "make_request net ''POST''
                 ''keywords_data/clickstream_data/search_volume_normalized/live'' ?data st") auto
  show ?thesis
    unfolding get_global_search_volume_unfold[OF assms mr] mr snd_conv
    by (rule after_request_only_logs) (rule global_tasks_only_logs)
qed

lemma get_search_volume_by_location_state:
  assumes "by_location_args_ok keywords loc_name loc_code"
  shows "only_logs
           (snd (make_request net ''POST''
                   ''keywords_data/clickstream_data/search_volume_by_location/live''
                   (Some (JList [JObj (set_tag tag (set_location loc_name loc_code
                                          [(''keywords'', JList (map JStr keywords))]))])) st))
           (snd (get_search_volume_by_location net keywords loc_name loc_code tag st))"
proof -
  let ?data = "Some (JList [JObj (set_tag tag (set_location loc_name loc_code
                                          [(''keywords'', JList (map JStr keywords))]))])"
  obtain out st' where
    mr: "make_request net ''POST'' ''keywords_data/clickstream_data/search_volume_by_location/live''
           ?data st = (out, st')"
    by (cases "make_request net ''POST''
                 ''keywords_data/clickstream_data/search_volume_by_location/live'' ?data st") auto
  show ?thesis
    unfolding get_search_volume_by_location_unfold[OF assms mr] mr snd_conv
    by (rule after_request_only_logs) (rule located_tasks_only_logs)
qed

lemma get_search_volume_same_client:
  "same_client st (snd (get_search_volume net keywords loc_name loc_code lang_name lang_code
                          clickstream tag st))"
proof (cases "search_volume_args_ok keywords loc_name loc_code lang_name lang_code")
  case True
  from get_search_volume_state[OF True, of net clickstream tag st]
       make_request_same_client[of st net]
  show ?thesis by (auto simp: only_logs_def same_client_def)
next
  case False
  from get_search_volume_invalid[OF False, of net clickstream tag st]
  show ?thesis by (auto simp: same_client_def)
qed

lemma get_global_search_volume_same_client:
  "same_client st (snd (get_global_search_volume net keywords tag st))"
proof (cases "global_args_ok keywords")
  case True
  from get_global_search_volume_state[OF True, of net tag st]
       make_request_same_client[of st net]
  show ?thesis by (auto simp: only_logs_def same_client_def)
next
  case False
  from get_global_search_volume_invalid[OF False, of net tag st]
  show ?thesis by (auto simp: same_client_def)
qed

lemma get_search_volume_by_location_same_client:
  "same_client st (snd (get_search_volume_by_location net keywords loc_name loc_code tag st))"
proof (cases "by_location_args_ok keywords loc_name loc_code")
  case True
  from get_search_volume_by_location_state[OF True, of net tag st]
       make_request_same_client[of st net]
  show ?thesis by (auto simp: only_logs_def same_client_def)
next
  case False
  from get_search_volume_by_location_invalid[OF False, of net tag st]
  show ?thesis by (auto simp: same_client_def)
qed

lemma make_request_outcome_cong:
  assumes "same_client st st'" and "net (calls st') = net (calls st)"
  shows "fst (make_request net m ep d st') = fst (make_request net m ep d st)"
  using assms by (intro make_request_cong) (simp_all add: same_client_def)

lemma get_search_volume_cong:
  assumes "same_client st st'" and "net (calls st') = net (calls st)"
  shows "fst (get_search_volume net keywords loc_name loc_code lang_name lang_code clickstream tag st')
       = fst (get_search_volume net keywords loc_name loc_code lang_name lang_code clickstream tag st)"
proof (cases "search_volume_args_ok keywords loc_name loc_code lang_name lang_code")
  case False
  then show ?thesis
    by (auto simp: get_search_volume_def search_volume_args_ok_def)
next
  case True
  let ?data = "Some (JList [JObj (search_volume_payload keywords loc_name loc_code
                                      lang_name lang_code clickstream tag)])"
  obtain out1 st1 where
    m1: "make_request net ''POST'' ''keywords_data/google/search_volume/live'' ?data st = (out1, st1)"
    by (cases "make_request net ''POST'' ''keywords_data/google/search_volume/live'' ?data st") auto
  obtain out2 st2 where
    m2: "make_request net ''POST'' ''keywords_data/google/search_volume/live'' ?data st' = (out2, st2)"
    by (cases "make_request net ''POST'' ''keywords_data/google/search_volume/live'' ?data st'") auto
  from make_request_outcome_cong[OF assms, of "''POST''" "''keywords_data/google/search_volume/live''" ?data]
       m1 m2
  have eq: "out2 = out1" by simp
  show ?thesis
    unfolding get_search_volume_unfold[OF True m1] get_search_volume_unfold[OF True m2] eq
    by (rule after_request_outcome) (rule search_volume_tasks_outcome)
qed

lemma check_keyword_lengths_none:
  "check_keyword_lengths keywords = None \<longleftrightarrow> list_all (\<lambda>kw. 3 \<le> length kw) keywords"
  by (induction "keywords") (simp_all add: not_less)

lemma get_global_search_volume_cong:
  assumes "same_client st st'" and "net (calls st') = net (calls st)"
  shows "fst (get_global_search_volume net keywords tag st')
       = fst (get_global_search_volume net keywords tag st)"
proof (cases "global_args_ok keywords")
  case False
  show ?thesis
  proof (cases "check_keyword_lengths keywords")
    case None
    with False have "keywords = [] \<or> 1000 < length keywords"
      by (auto simp: global_args_ok_def check_keyword_lengths_none)
    then show ?thesis by (auto simp: get_global_search_volume_def)
  next
    case (Some e)
    then show ?thesis by (simp add: get_global_search_volume_def)
  qed
next
  case True
  let ?data = "Some (JList [JObj (set_tag tag [(''keywords'', JList (map JStr keywords))])])"
  obtain out1 st1 where
    m1: "make_request net ''POST'' ''keywords_data/clickstream_data/search_volume_normalized/live''
           ?data st = (out1, st1)"
    by (cases "make_request net ''POST''
                 ''keywords_data/clickstream_data/search_volume_normalized/live'' ?data st") auto
  obtain out2 st2 where
    m2: "make_request net ''POST'' ''keywords_data/clickstream_data/search_volume_normalized/live''
           ?data st' = (out2, st2)"
    by (cases "make_request net ''POST''
                 ''keywords_data/clickstream_data/search_volume_normalized/live'' ?data st'") auto
  from make_request_outcome_cong[OF assms,
         of "''POST''" "''keywords_data/clickstream_data/search_volume_normalized/live''" ?data]
       m1 m2
  have eq: "out2 = out1" by simp
  show ?thesis
    unfolding get_global_search_volume_unfold[OF True m1] get_global_search_volume_unfold[OF True m2] eq
    by (rule after_request_outcome) (rule global_tasks_outcome)
qed

lemma get_search_volume_by_location_cong:
  assumes "same_client st st'" and "net (calls st') = net (calls st)"
  shows "fst (get_search_volume_by_location net keywords loc_name loc_code tag st')
       = fst (get_search_volume_by_location net keywords loc_name loc_code tag st)"
proof (cases "by_location_args_ok keywords loc_name loc_code")
  case False
  then show ?thesis
    by (auto simp: get_search_volume_by_location_def by_location_args_ok_def)
next
  case True
  let ?data = "Some (JList [JObj (set_tag tag (set_location loc_name loc_code
                                          [(''keywords'', JList (map JStr keywords))]))])"
  obtain out1 st1 where
    m1: "make_request net ''POST'' ''keywords_data/clickstream_data/search_volume_by_location/live''
           ?data st = (out1, st1)"
    by (cases "make_request net ''POST''
                 ''keywords_data/clickstream_data/search_volume_by_location/live'' ?data st") auto
  obtain out2 st2 where
    m2: "make_request net ''POST'' ''keywords_data/clickstream_data/search_volume_by_location/live''
           ?data st' = (out2, st2)"
    by (cases "make_request net ''POST''
                 ''keywords_data/clickstream_data/search_volume_by_location/live'' ?data st'") auto
  from make_request_outcome_cong[OF assms,
         of "''POST''" "''keywords_data/clickstream_data/search_volume_by_location/live''" ?data]
       m1 m2
  have eq: "out2 = out1" by simp
  show ?thesis
    unfolding get_search_volume_by_location_unfold[OF True m1]
              get_search_volume_by_location_unfold[OF True m2] eq
    by (rule after_request_outcome) (rule located_tasks_outcome)
qed

lemma get_search_volume_calls:
  assumes "session st = Some s" and "0 < rate_limiter st"
    and "search_volume_args_ok keywords loc_name loc_code lang_name lang_code"
  shows "calls (snd (get_search_volume net keywords loc_name loc_code lang_name lang_code
                       clickstream tag st))
         = calls st @ [\<lparr>verb = POST,
                         target = endpoint_url st ''keywords_data/google/search_volume/live'',
                         json_arg = Some (JList [JObj (search_volume_payload keywords loc_name
                                      loc_code lang_name lang_code clickstream tag)])\<rparr>]"
  using get_search_volume_state[OF assms(3), of net clickstream tag st]
        make_request_issued[OF assms(1,2), of net "''POST''"
          "''keywords_data/google/search_volume/live''"
          "Some (JList [JObj (search_volume_payload keywords loc_name loc_code
                                lang_name lang_code clickstream tag)])"]
  by (auto simp: only_logs_def request_for_def)

lemma get_search_volume_by_location_calls:
  assumes "session st = Some s" and "0 < rate_limiter st"
    and "by_location_args_ok keywords loc_name loc_code"
  shows "calls (snd (get_search_volume_by_location net keywords loc_name loc_code tag st))
         = calls st @ [\<lparr>verb = POST,
                         target = endpoint_url st
                           ''keywords_data/clickstream_data/search_volume_by_location/live'',
                         json_arg = Some (JList [JObj (set_tag tag (set_location loc_name loc_code
                                          [(''keywords'', JList (map JStr keywords))]))])\<rparr>]"
  using get_search_volume_by_location_state[OF assms(3), of net tag st]
        make_request_issued[OF assms(1,2), of net "''POST''"
          "''keywords_data/clickstream_data/search_volume_by_location/live''"
          "Some (JList [JObj (set_tag tag (set_location loc_name loc_code
                                          [(''keywords'', JList (map JStr keywords))]))])"]
  by (auto simp: only_logs_def request_for_def)

lemma distinct_set_tag: "distinct (map fst p) \<Longrightarrow> distinct (map fst (set_tag tag p))"
  by (simp add: set_tag_def distinct_update)

lemma distinct_set_language:
  "distinct (map fst p) \<Longrightarrow> distinct (map fst (set_language lang_name lang_code p))"
  by (simp add: set_language_def distinct_update)

lemma distinct_set_location:
  "distinct (map fst p) \<Longrightarrow> distinct (map fst (set_location loc_name loc_code p))"
  by (simp add: set_location_def distinct_update)

lemma keys_set_tag: "fst ` set (set_tag tag p) \<subseteq> insert ''tag'' (fst ` set p)"
  by (auto simp: set_tag_def dom_update)

lemma keys_set_language:
  "fst ` set (set_language lang_name lang_code p)
     \<subseteq> insert ''language_name'' (insert ''language_code'' (fst ` set p))"
  by (auto simp: set_language_def dom_update)

lemma keys_set_location:
  "fst ` set (set_location loc_name loc_code p)
     \<subseteq> insert ''location_name'' (insert ''location_code'' (fst ` set p))"
  by (auto simp: set_location_def dom_update)

lemma map_of_set_tag:
  "map_of (set_tag tag p) k =
     (if k = ''tag'' \<and> truthy_str tag then Some (str_value tag) else map_of p k)"
  by (simp add: set_tag_def update_conv')

lemma map_of_set_language:
  "map_of (set_language lang_name lang_code p) k =
     (if k = ''language_name'' \<and> truthy_str lang_name then Some (str_value lang_name)
      else if k = ''language_code'' \<and> \<not> truthy_str lang_name \<and> truthy_str lang_code
           then Some (str_value lang_code)
      else map_of p k)"
  by (simp add: set_language_def update_conv')

lemma map_of_set_location:
  "map_of (set_location loc_name loc_code p) k =
     (if k = ''location_name'' \<and> truthy_str loc_name then Some (str_value loc_name)
      else if k = ''location_code'' \<and> \<not> truthy_str loc_name \<and> truthy_int loc_code
           then Some (int_value loc_code)
      else map_of p k)"
  by (simp add: set_location_def update_conv')

lemma search_volume_payload_lookup:
  "map_of (search_volume_payload keywords loc_name loc_code lang_name lang_code clickstream tag) k =
     (if k = ''tag'' \<and> truthy_str tag then Some (str_value tag)
      else if k = ''language_name'' \<and> truthy_str lang_name then Some (str_value lang_name)
      else if k = ''language_code'' \<and> \<not> truthy_str lang_name \<and> truthy_str lang_code
           then Some (str_value lang_code)
      else if k = ''location_name'' \<and> truthy_str loc_name then Some (str_value loc_name)
      else if k = ''location_code'' \<and> \<not> truthy_str loc_name \<and> truthy_int loc_code
           then Some (int_value loc_code)
      else if k = ''keywords'' then Some (JList (map JStr keywords))
      else if k = ''use_clickstream'' then Some (JBool clickstream)
      else None)"
  by (simp add: search_volume_payload_def map_of_set_tag map_of_set_language map_of_set_location)

lemma search_volume_payload_keys:
  "distinct (map fst (search_volume_payload keywords loc_name loc_code lang_name lang_code
                        clickstream tag))"
  "set (map fst (search_volume_payload keywords loc_name loc_code lang_name lang_code
                   clickstream tag))
     \<subseteq> {''keywords'', ''use_clickstream'', ''location_name'', ''location_code'',
         ''language_name'', ''language_code'', ''tag''}"
proof -
  let ?p0 = "[(''keywords'', JList (map JStr keywords)), (''use_clickstream'', JBool clickstream)]"
  show "distinct (map fst (search_volume_payload keywords loc_name loc_code lang_name lang_code
                        clickstream tag))"
    unfolding search_volume_payload_def
    by (intro distinct_set_tag distinct_set_language distinct_set_location) simp
  have "fst ` set ?p0 = {''keywords'', ''use_clickstream''}" by simp
  with keys_set_location[of loc_name loc_code ?p0]
  have a: "fst ` set (set_location loc_name loc_code ?p0)
             \<subseteq> {''location_name'', ''location_code'', ''keywords'', ''use_clickstream''}"
    by simp
  with keys_set_language[of lang_name lang_code "set_location loc_name loc_code ?p0"]
  have b: "fst ` set (set_language lang_name lang_code (set_location loc_name loc_code ?p0))
             \<subseteq> {''language_name'', ''language_code'', ''location_name'', ''location_code'',
                 ''keywords'', ''use_clickstream''}"
    by blast
  with keys_set_tag[of tag "set_language lang_name lang_code (set_location loc_name loc_code ?p0)"]
  show "set (map fst (search_volume_payload keywords loc_name loc_code lang_name lang_code
                   clickstream tag))
     \<subseteq> {''keywords'', ''use_clickstream'', ''location_name'', ''location_code'',
         ''language_name'', ''language_code'', ''tag''}"
    unfolding search_volume_payload_def set_map by blast
qed

lemma py_get_error: "py_get v k d = Inl e \<Longrightarrow> access_error e"
  by (cases v) (simp_all add: access_error_def)

lemma py_getitem_error: "py_getitem v k = Inl e \<Longrightarrow> access_error e"
  by (cases v) (auto simp: access_error_def split: option.splits)

lemma py_iter_error: "py_iter v = Inl e \<Longrightarrow> access_error e"
  by (cases v) (simp_all add: access_error_def)

lemma tasks_of_error: "tasks_of response = Inl e \<Longrightarrow> access_error e"
  by (auto simp: tasks_of_def split: sum.splits dest: py_get_error py_iter_error)

lemma access_error_not_value_error: "access_error e \<Longrightarrow> \<not> is_value_error e"
  by (cases e) (simp_all add: access_error_def is_value_error_def)

lemma construct_located_error: "construct_located result item = Inl e \<Longrightarrow> access_error e"
  by (auto simp: construct_located_def split: sum.splits dest: py_get_error py_getitem_error)

lemma located_items_error: "located_items result items results = Inl e \<Longrightarrow> access_error e"
  by (induction items arbitrary: results)
     (auto split: sum.splits dest: construct_located_error)

lemma located_results_error: "located_results rlist results = Inl e \<Longrightarrow> access_error e"
  by (induction rlist arbitrary: results)
     (auto split: sum.splits dest: py_get_error py_iter_error located_items_error)

lemma located_tasks_error:
  "fst (located_tasks tasks results st) = Raise e \<Longrightarrow> access_error e"
  by (induction tasks arbitrary: results st)
     (auto split: sum.splits if_splits dest: py_get_error py_iter_error located_results_error)

lemma check_envelope_error: "check_envelope response = Raise e \<Longrightarrow> \<not> is_value_error e"
proof (cases "py_get response ''status_code'' JNull")
  case (Inl x)
  assume "check_envelope response = Raise e"
  with Inl have "py_get response ''status_code'' JNull = Inl e"
    by (simp add: check_envelope_def)
  then show ?thesis using py_get_error access_error_not_value_error by blast
next
  case code: (Inr code)
  assume raised: "check_envelope response = Raise e"
  show ?thesis
  proof (cases "py_get response ''status_message'' (JStr ''Unknown error'')")
    case (Inl x)
    with code raised have "py_get response ''status_message'' (JStr ''Unknown error'') = Inl e"
      by (simp add: check_envelope_def split: if_splits)
    then show ?thesis using py_get_error access_error_not_value_error by blast
  next
    case (Inr msg)
    with code raised show ?thesis
      by (auto simp: check_envelope_def is_value_error_def split: if_splits)
  qed
qed

lemma make_request_error:
  assumes "fst (make_request net m ep d st) = Raise e"
  shows "\<not> is_value_error e"
proof (cases "session st")
  case None
  with assms show ?thesis by (auto simp: make_request_outcome is_value_error_def)
next
  case (Some s)
  show ?thesis
  proof (cases "net (calls st) s (request_for m (endpoint_url st ep) d)")
    case (Send_fails x)
    with assms Some show ?thesis
      by (cases x) (auto simp: make_request_outcome is_value_error_def raised_for_def split: if_splits)
  next
    case (Decode_fails c x)
    with assms Some show ?thesis
      by (cases x) (auto simp: make_request_outcome is_value_error_def raised_for_def split: if_splits)
  next
    case (Responds c response)
    with assms Some show ?thesis
      by (auto simp: make_request_outcome split: if_splits dest: check_envelope_error)
  qed
qed

lemma get_search_volume_by_location_error:
  assumes "by_location_args_ok keywords loc_name loc_code"
    and "fst (get_search_volume_by_location net keywords loc_name loc_code tag st) = Raise e"
  shows "\<not> is_value_error e"
proof -
  let ?data = "Some (JList [JObj (set_tag tag (set_location loc_name loc_code
                                          [(''keywords'', JList (map JStr keywords))]))])"
  obtain out st' where
    mr: "make_request net ''POST'' ''keywords_data/clickstream_data/search_volume_by_location/live''
           ?data st = (out, st')"
    by (cases "make_request net ''POST''
                 ''keywords_data/clickstream_data/search_volume_by_location/live'' ?data st") auto
  show ?thesis
  proof (cases out)
    case (Return response)
    show ?thesis
    proof (cases "tasks_of response")
      case (Inl x)
      with assms(2) Return show ?thesis
        by (auto simp: get_search_volume_by_location_unfold[OF assms(1) mr]
                 dest: tasks_of_error access_error_not_value_error)
    next
      case (Inr tasks)
      with assms(2) Return show ?thesis
        by (auto simp: get_search_volume_by_location_unfold[OF assms(1) mr]
                 dest: located_tasks_error access_error_not_value_error)
    qed
  next
    case (Raise x)
    with assms(2) mr make_request_error[of net "''POST''"
        "''keywords_data/clickstream_data/search_volume_by_location/live''" ?data st x]
    show ?thesis
      by (simp add: get_search_volume_by_location_unfold[OF assms(1) mr])
  next
    case Hang
    with assms(2) show ?thesis
      by (simp add: get_search_volume_by_location_unfold[OF assms(1) mr])
  qed
qed

section \<open>Properties of the walk over nested items\<close>

lemma construct_global_complete:
  assumes "is_object item" and "has_both item"
  shows "\<exists>r. construct_global item = Inr r \<and> copied_global item r"
proof -
  from assms(2) obtain k v where
    kv: "lookup item ''keyword'' = Some k" "lookup item ''search_volume'' = Some v"
    by (auto simp: has_both_def)
  let ?r = "\<lparr>global_keyword = k, global_search_volume = v,
             country_distribution = field_or item ''country_distribution'' (JList [])\<rparr>"
  have "construct_global item = Inr ?r"
    using assms(1) kv by (simp add: construct_global_def object_get object_getitem)
  moreover have "copied_global item ?r"
    using kv by (simp add: copied_global_def)
  ultimately show ?thesis by blast
qed

lemma construct_global_incomplete:
  assumes "is_object item" and "\<not> has_both item"
  shows "\<exists>e. construct_global item = Inl e \<and> missing_field e"
proof (cases "lookup item ''keyword''")
  case None
  then have "construct_global item = Inl (KeyError ''keyword'')"
    using assms(1) by (simp add: construct_global_def object_getitem)
  then show ?thesis by (simp add: missing_field_def)
next
  case (Some k)
  with assms(2) have "lookup item ''search_volume'' = None"
    by (simp add: has_both_def)
  with Some have "construct_global item = Inl (KeyError ''search_volume'')"
    using assms(1) by (simp add: construct_global_def object_getitem)
  then show ?thesis by (simp add: missing_field_def)
qed

lemma global_items_complete:
  assumes "list_all is_object items" and "list_all has_both items"
  shows "\<exists>rs. global_items items results = Inr (results @ rs) \<and> list_all2 copied_global items rs"
  using assms
proof (induction items arbitrary: results)
  case Nil
  then show ?case by simp
next
  case (Cons item rest)
  then obtain r where r: "construct_global item = Inr r" "copied_global item r"
    using construct_global_complete[of item] by auto
  from Cons.prems have "list_all is_object rest" "list_all has_both rest" by simp_all
  from Cons.IH[OF this, of "results @ [r]"] obtain rs where
    "global_items rest (results @ [r]) = Inr ((results @ [r]) @ rs)"
    "list_all2 copied_global rest rs" by blast
  with r have "global_items (item # rest) results = Inr (results @ (r # rs))
               \<and> list_all2 copied_global (item # rest) (r # rs)"
    by simp
  then show ?case by blast
qed

lemma global_items_incomplete:
  assumes "list_all is_object items" and "\<not> list_all has_both items"
  shows "\<exists>e. global_items items results = Inl e \<and> missing_field e"
  using assms
proof (induction items arbitrary: results)
  case Nil
  then show ?case by simp
next
  case (Cons item rest)
  from Cons.prems have obj: "is_object item" and rest: "list_all is_object rest" by simp_all
  show ?case
  proof (cases "has_both item")
    case False
    from construct_global_incomplete[OF obj False] show ?thesis by auto
  next
    case True
    from construct_global_complete[OF obj True] obtain r where r: "construct_global item = Inr r"
      by blast
    from True Cons.prems(2) have "\<not> list_all has_both rest" by simp
    from Cons.IH[OF rest this, of "results @ [r]"] r show ?thesis by simp
  qed
qed

lemma global_results_step:
  assumes "is_object result" and "list_of_objects (lookup result ''items'')"
  shows "global_results (result # rest) results =
           (case global_items (result_items result) results of
              Inl e \<Rightarrow> Inl e
            | Inr results' \<Rightarrow> global_results rest results')"
    and "list_all is_object (result_items result)"
  using object_list[OF assms] by (auto simp: result_items_def)

lemma global_results_complete:
  assumes "list_all (\<lambda>result. is_object result \<and> list_of_objects (lookup result ''items'')) rlist"
    and "list_all has_both (concat (map result_items rlist))"
  shows "\<exists>rs. global_results rlist results = Inr (results @ rs)
              \<and> list_all2 copied_global (concat (map result_items rlist)) rs"
  using assms
proof (induction rlist arbitrary: results)
  case Nil
  then show ?case by simp
next
  case (Cons result rest)
  from Cons.prems(1) have obj: "is_object result" and its: "list_of_objects (lookup result ''items'')"
    and rest: "list_all (\<lambda>result. is_object result \<and> list_of_objects (lookup result ''items'')) rest"
    by simp_all
  from Cons.prems(2) have c1: "list_all has_both (result_items result)"
    and c2: "list_all has_both (concat (map result_items rest))" by simp_all
  from global_items_complete[OF global_results_step(2)[OF obj its] c1, of results] obtain rs1 where
    rs1: "global_items (result_items result) results = Inr (results @ rs1)"
         "list_all2 copied_global (result_items result) rs1" by blast
  from Cons.IH[OF rest c2, of "results @ rs1"] obtain rs where
    rs: "global_results rest (results @ rs1) = Inr ((results @ rs1) @ rs)"
        "list_all2 copied_global (concat (map result_items rest)) rs" by blast
  have "global_results (result # rest) results = Inr (results @ (rs1 @ rs))"
    using rs1(1) rs(1) by (simp add: global_results_step(1)[OF obj its] del: global_results.simps)
  moreover have "list_all2 copied_global (concat (map result_items (result # rest))) (rs1 @ rs)"
    using rs1(2) rs(2) by (simp add: list_all2_appendI)
  ultimately show ?case by blast
qed

lemma global_results_incomplete:
  assumes "list_all (\<lambda>result. is_object result \<and> list_of_objects (lookup result ''items'')) rlist"
    and "\<not> list_all has_both (concat (map result_items rlist))"
  shows "\<exists>e. global_results rlist results = Inl e \<and> missing_field e"
  using assms
proof (induction rlist arbitrary: results)
  case Nil
  then show ?case by simp
next
  case (Cons result rest)
  from Cons.prems(1) have obj: "is_object result" and its: "list_of_objects (lookup result ''items'')"
    and rest: "list_all (\<lambda>result. is_object result \<and> list_of_objects (lookup result ''items'')) rest"
    by simp_all
  show ?case
  proof (cases "list_all has_both (result_items result)")
    case False
    from global_items_incomplete[OF global_results_step(2)[OF obj its] False, of results]
    show ?thesis
      by (auto simp: global_results_step(1)[OF obj its] simp del: global_results.simps)
  next
    case True
    from global_items_complete[OF global_results_step(2)[OF obj its] True, of results] obtain rs1
      where rs1: "global_items (result_items result) results = Inr (results @ rs1)" by blast
    from True Cons.prems(2) have "\<not> list_all has_both (concat (map result_items rest))" by simp
    from Cons.IH[OF rest this, of "results @ rs1"] rs1 show ?thesis
      by (simp add: global_results_step(1)[OF obj its] del: global_results.simps)
  qed
qed

lemma nested_task_shape:
  assumes "wf_nested_task task" and "succeeds task"
  shows "list_of_objects (lookup task ''result'')"
    and "list_all (\<lambda>result. is_object result \<and> list_of_objects (lookup result ''items''))
           (task_results task)"
proof -
  from assms show lo: "list_of_objects (lookup task ''result'')"
    by (simp add: wf_nested_task_def)
  from assms have "is_object task" by (simp add: wf_nested_task_def)
  with lo have "list_all is_object (task_results task)"
    using object_list task_results_def by metis
  moreover from assms have
    "list_all (\<lambda>result. list_of_objects (lookup result ''items'')) (task_results task)"
    by (simp add: wf_nested_task_def)
  ultimately show "list_all (\<lambda>result. is_object result \<and> list_of_objects (lookup result ''items''))
           (task_results task)"
    by (simp add: list_all_iff)
qed

lemma nested_items_succeeding:
  "succeeds task \<Longrightarrow>
   nested_items (filter succeeds (task # rest)) =
     concat (map result_items (task_results task)) @ nested_items (filter succeeds rest)"
  by (simp add: nested_items_def)

lemma global_tasks_failing:
  assumes "is_object task" and "\<not> succeeds task"
  shows "global_tasks (task # rest) results st =
         global_tasks rest results
           (logger_error [Lit ''Task error: '', Val (field_or task ''status_message'' JNull)] st)"
proof -
  from object_status[OF assms(1)] assms(2) obtain code where
    "py_get task ''status_code'' JNull = Inr code" "\<not> py_eq_int code 20000" by auto
  then show ?thesis by (simp add: object_get[OF assms(1)])
qed

lemma global_tasks_succeeding:
  assumes "is_object task" and "succeeds task" and "list_of_objects (lookup task ''result'')"
  shows "global_tasks (task # rest) results st =
         (case global_results (task_results task) results of
            Inl e \<Rightarrow> (Raise e, st)
          | Inr results' \<Rightarrow> global_tasks rest results' st)"
proof -
  from object_status[OF assms(1)] assms(2) obtain code where
    c: "py_get task ''status_code'' JNull = Inr code" "py_eq_int code 20000" by auto
  from object_list[OF assms(1,3)] obtain x where
    x: "py_get task ''result'' (JList []) = Inr x" "py_iter x = Inr (task_results task)"
    by (auto simp: task_results_def)
  show ?thesis using c x by simp
qed

lemma global_tasks_complete:
  assumes "list_all wf_nested_task tasks"
    and "list_all has_both (nested_items (filter succeeds tasks))"
  shows "\<exists>rs lg. global_tasks tasks results st =
                   (Return (results @ rs), st\<lparr>logged := logged st @ lg\<rparr>)
                 \<and> list_all2 copied_global (nested_items (filter succeeds tasks)) rs
                 \<and> (\<forall>task\<in>set tasks. \<not> succeeds task \<longrightarrow>
                       Error [Lit ''Task error: '', Val (field_or task ''status_message'' JNull)]
                         \<in> set lg)"
  using assms
proof (induction tasks arbitrary: results st)
  case Nil
  have "global_tasks [] results st = (Return (results @ []), st\<lparr>logged := logged st @ []\<rparr>)
        \<and> list_all2 copied_global (nested_items (filter succeeds [])) []
        \<and> (\<forall>task\<in>set []. \<not> succeeds task \<longrightarrow>
               Error [Lit ''Task error: '', Val (field_or task ''status_message'' JNull)] \<in> set [])"
    by (simp add: nested_items_def)
  then show ?case by blast
next
  case (Cons task rest)
  from Cons.prems(1) have wf: "wf_nested_task task" and rest: "list_all wf_nested_task rest"
    by simp_all
  from wf have obj: "is_object task" by (simp add: wf_nested_task_def)
  show ?case
  proof (cases "succeeds task")
    case False
    let ?e = "Error [Lit ''Task error: '', Val (field_or task ''status_message'' JNull)]"
    let ?st = "logger_error [Lit ''Task error: '', Val (field_or task ''status_message'' JNull)] st"
    from Cons.prems(2) False have "list_all has_both (nested_items (filter succeeds rest))"
      by simp
    from Cons.IH[OF rest this, of results ?st] obtain rs lg where
      ih: "global_tasks rest results ?st = (Return (results @ rs), ?st\<lparr>logged := logged ?st @ lg\<rparr>)"
          "list_all2 copied_global (nested_items (filter succeeds rest)) rs"
          "\<forall>t\<in>set rest. \<not> succeeds t \<longrightarrow>
               Error [Lit ''Task error: '', Val (field_or t ''status_message'' JNull)] \<in> set lg"
      by blast
    have "global_tasks (task # rest) results st =
            (Return (results @ rs), st\<lparr>logged := logged st @ (?e # lg)\<rparr>)"
      using ih(1) by (simp add: global_tasks_failing[OF obj False] logger_error_def
                        del: global_tasks.simps)
    moreover have "list_all2 copied_global (nested_items (filter succeeds (task # rest))) rs"
      using False ih(2) by simp
    moreover have "\<forall>t\<in>set (task # rest). \<not> succeeds t \<longrightarrow>
        Error [Lit ''Task error: '', Val (field_or t ''status_message'' JNull)] \<in> set (?e # lg)"
      using ih(3) by simp
    ultimately show ?thesis by blast
  next
    case True
    note shape = nested_task_shape[OF wf True]
    from Cons.prems(2) True have c1: "list_all has_both (concat (map result_items (task_results task)))"
      and c2: "list_all has_both (nested_items (filter succeeds rest))"
      by (simp_all add: nested_items_succeeding del: filter.simps)
    from global_results_complete[OF shape(2) c1, of results] obtain rs1 where
      r1: "global_results (task_results task) results = Inr (results @ rs1)"
          "list_all2 copied_global (concat (map result_items (task_results task))) rs1"
      by blast
    from Cons.IH[OF rest c2, of "results @ rs1" st] obtain rs lg where
      ih: "global_tasks rest (results @ rs1) st =
             (Return ((results @ rs1) @ rs), st\<lparr>logged := logged st @ lg\<rparr>)"
          "list_all2 copied_global (nested_items (filter succeeds rest)) rs"
          "\<forall>t\<in>set rest. \<not> succeeds t \<longrightarrow>
               Error [Lit ''Task error: '', Val (field_or t ''status_message'' JNull)] \<in> set lg"
      by blast
    have "global_tasks (task # rest) results st =
            (Return (results @ (rs1 @ rs)), st\<lparr>logged := logged st @ lg\<rparr>)"
      using r1(1) ih(1) by (simp add: global_tasks_succeeding[OF obj True shape(1)]
                              del: global_tasks.simps)
    moreover have "list_all2 copied_global (nested_items (filter succeeds (task # rest))) (rs1 @ rs)"
      using r1(2) ih(2)
      by (simp add: nested_items_succeeding[OF True] list_all2_appendI del: filter.simps)
    moreover have "\<forall>t\<in>set (task # rest). \<not> succeeds t \<longrightarrow>
        Error [Lit ''Task error: '', Val (field_or t ''status_message'' JNull)] \<in> set lg"
      using True ih(3) by simp
    ultimately show ?thesis by blast
  qed
qed

lemma global_tasks_incomplete:
  assumes "list_all wf_nested_task tasks"
    and "\<not> list_all has_both (nested_items (filter succeeds tasks))"
  shows "\<exists>e. fst (global_tasks tasks results st) = Raise e \<and> missing_field e"
  using assms
proof (induction tasks arbitrary: results st)
  case Nil
  then show ?case by (simp add: nested_items_def)
next
  case (Cons task rest)
  from Cons.prems(1) have wf: "wf_nested_task task" and rest: "list_all wf_nested_task rest"
    by simp_all
  from wf have obj: "is_object task" by (simp add: wf_nested_task_def)
  show ?case
  proof (cases "succeeds task")
    case False
    from Cons.prems(2) False have "\<not> list_all has_both (nested_items (filter succeeds rest))"
      by simp
    from Cons.IH[OF rest this] show ?thesis
      by (simp add: global_tasks_failing[OF obj False] del: global_tasks.simps)
  next
    case True
    note shape = nested_task_shape[OF wf True]
    show ?thesis
    proof (cases "list_all has_both (concat (map result_items (task_results task)))")
      case False
      from global_results_incomplete[OF shape(2) False, of results] show ?thesis
        by (auto simp: global_tasks_succeeding[OF obj True shape(1)] simp del: global_tasks.simps)
    next
      case c1: True
      from global_results_complete[OF shape(2) c1, of results] obtain rs1 where
        r1: "global_results (task_results task) results = Inr (results @ rs1)" by blast
      from Cons.prems(2) True c1 have "\<not> list_all has_both (nested_items (filter succeeds rest))"
        by (simp add: nested_items_succeeding del: filter.simps)
      from Cons.IH[OF rest this, of "results @ rs1" st] r1 show ?thesis
        by (simp add: global_tasks_succeeding[OF obj True shape(1)] del: global_tasks.simps)
    qed
  qed
qed

lemma construct_located_complete:
  assumes "is_object result" and "is_object item" and "has_both item"
  shows "\<exists>r. construct_located result item = Inr r \<and> copied_item item r"
proof -
  from assms(3) obtain k v where
    kv: "lookup item ''keyword'' = Some k" "lookup item ''search_volume'' = Some v"
    by (auto simp: has_both_def)
  let ?r = "\<lparr>keyword = k, search_volume = v,
             monthly_searches = field_or item ''monthly_searches'' (JList []),
             location_code = field_or result ''location_code'' JNull,
             language_code = JNull, use_clickstream = JBool True\<rparr>"
  have "construct_located result item = Inr ?r"
    using assms(1,2) kv by (simp add: construct_located_def object_get object_getitem)
  moreover have "copied_item item ?r"
    using kv by (simp add: copied_item_def)
  ultimately show ?thesis by blast
qed

lemma construct_located_incomplete:
  assumes "is_object item" and "\<not> has_both item"
  shows "\<exists>e. construct_located result item = Inl e \<and> missing_field e"
proof (cases "lookup item ''keyword''")
  case None
  then have "construct_located result item = Inl (KeyError ''keyword'')"
    using assms(1) by (simp add: construct_located_def object_getitem)
  then show ?thesis by (simp add: missing_field_def)
next
  case (Some k)
  with assms(2) have "lookup item ''search_volume'' = None"
    by (simp add: has_both_def)
  with Some have "construct_located result item = Inl (KeyError ''search_volume'')"
    using assms(1) by (simp add: construct_located_def object_getitem)
  then show ?thesis by (simp add: missing_field_def)
qed

lemma located_items_complete:
  assumes "is_object result" and "list_all is_object items" and "list_all has_both items"
  shows "\<exists>rs. located_items result items results = Inr (results @ rs) \<and> list_all2 copied_item items rs"
  using assms
proof (induction items arbitrary: results)
  case Nil
  then show ?case by simp
next
  case (Cons item rest)
  then obtain r where r: "construct_located result item = Inr r" "copied_item item r"
    using construct_located_complete[of result item] by auto
  from Cons.prems have "list_all is_object rest" "list_all has_both rest" by simp_all
  from Cons.IH[OF Cons.prems(1) this, of "results @ [r]"] obtain rs where
    "located_items result rest (results @ [r]) = Inr ((results @ [r]) @ rs)"
    "list_all2 copied_item rest rs" by blast
  with r have "located_items result (item # rest) results = Inr (results @ (r # rs))
               \<and> list_all2 copied_item (item # rest) (r # rs)"
    by simp
  then show ?case by blast
qed

lemma located_items_incomplete:
  assumes "is_object result" and "list_all is_object items" and "\<not> list_all has_both items"
  shows "\<exists>e. located_items result items results = Inl e \<and> missing_field e"
  using assms
proof (induction items arbitrary: results)
  case Nil
  then show ?case by simp
next
  case (Cons item rest)
  from Cons.prems have obj: "is_object item" and rest: "list_all is_object rest" by simp_all
  show ?case
  proof (cases "has_both item")
    case False
    from construct_located_incomplete[OF obj False, of result] show ?thesis by auto
  next
    case True
    from construct_located_complete[OF Cons.prems(1) obj True] obtain r where
      r: "construct_located result item = Inr r"
      by blast
    from True Cons.prems(3) have "\<not> list_all has_both rest" by simp
    from Cons.IH[OF Cons.prems(1) rest this, of "results @ [r]"] r show ?thesis by simp
  qed
qed

lemma located_results_step:
  assumes "is_object result" and "list_of_objects (lookup result ''items'')"
  shows "located_results (result # rest) results =
           (case located_items result (result_items result) results of
              Inl e \<Rightarrow> Inl e
            | Inr results' \<Rightarrow> located_results rest results')"
    and "list_all is_object (result_items result)"
  using object_list[OF assms] by (auto simp: result_items_def)

lemma located_results_complete:
  assumes "list_all (\<lambda>result. is_object result \<and> list_of_objects (lookup result ''items'')) rlist"
    and "list_all has_both (concat (map result_items rlist))"
  shows "\<exists>rs. located_results rlist results = Inr (results @ rs)
              \<and> list_all2 copied_item (concat (map result_items rlist)) rs"
  using assms
proof (induction rlist arbitrary: results)
  case Nil
  then show ?case by simp
next
  case (Cons result rest)
  from Cons.prems(1) have obj: "is_object result" and its: "list_of_objects (lookup result ''items'')"
    and rest: "list_all (\<lambda>result. is_object result \<and> list_of_objects (lookup result ''items'')) rest"
    by simp_all
  from Cons.prems(2) have c1: "list_all has_both (result_items result)"
    and c2: "list_all has_both (concat (map result_items rest))" by simp_all
  from located_items_complete[OF obj located_results_step(2)[OF obj its] c1, of results] obtain rs1 where
    rs1: "located_items result (result_items result) results = Inr (results @ rs1)"
         "list_all2 copied_item (result_items result) rs1" by blast
  from Cons.IH[OF rest c2, of "results @ rs1"] obtain rs where
    rs: "located_results rest (results @ rs1) = Inr ((results @ rs1) @ rs)"
        "list_all2 copied_item (concat (map result_items rest)) rs" by blast
  have "located_results (result # rest) results = Inr (results @ (rs1 @ rs))"
    using rs1(1) rs(1) by (simp add: located_results_step(1)[OF obj its] del: located_results.simps)
  moreover have "list_all2 copied_item (concat (map result_items (result # rest))) (rs1 @ rs)"
    using rs1(2) rs(2) by (simp add: list_all2_appendI)
  ultimately show ?case by blast
qed

lemma located_results_incomplete:
  assumes "list_all (\<lambda>result. is_object result \<and> list_of_objects (lookup result ''items'')) rlist"
    and "\<not> list_all has_both (concat (map result_items rlist))"
  shows "\<exists>e. located_results rlist results = Inl e \<and> missing_field e"
  using assms
proof (induction rlist arbitrary: results)
  case Nil
  then show ?case by simp
next
  case (Cons result rest)
  from Cons.prems(1) have obj: "is_object result" and its: "list_of_objects (lookup result ''items'')"
    and rest: "list_all (\<lambda>result. is_object result \<and> list_of_objects (lookup result ''items'')) rest"
    by simp_all
  show ?case
  proof (cases "list_all has_both (result_items result)")
    case False
    from located_items_incomplete[OF obj located_results_step(2)[OF obj its] False, of results]
    show ?thesis
      by (auto simp: located_results_step(1)[OF obj its] simp del: located_results.simps)
  next
    case True
    from located_items_complete[OF obj located_results_step(2)[OF obj its] True, of results] obtain rs1
      where rs1: "located_items result (result_items result) results = Inr (results @ rs1)" by blast
    from True Cons.prems(2) have "\<not> list_all has_both (concat (map result_items rest))" by simp
    from Cons.IH[OF rest this, of "results @ rs1"] rs1 show ?thesis
      by (simp add: located_results_step(1)[OF obj its] del: located_results.simps)
  qed
qed

lemma located_tasks_failing:
  assumes "is_object task" and "\<not> succeeds task"
  shows "located_tasks (task # rest) results st =
         located_tasks rest results
           (logger_error [Lit ''Task error: '', Val (field_or task ''status_message'' JNull)] st)"
proof -
  from object_status[OF assms(1)] assms(2) obtain code where
    "py_get task ''status_code'' JNull = Inr code" "\<not> py_eq_int code 20000" by auto
  then show ?thesis by (simp add: object_get[OF assms(1)])
qed

lemma located_tasks_succeeding:
  assumes "is_object task" and "succeeds task" and "list_of_objects (lookup task ''result'')"
  shows "located_tasks (task # rest) results st =
         (case located_results (task_results task) results of
            Inl e \<Rightarrow> (Raise e, st)
          | Inr results' \<Rightarrow> located_tasks rest results' st)"
proof -
  from object_status[OF assms(1)] assms(2) obtain code where
    c: "py_get task ''status_code'' JNull = Inr code" "py_eq_int code 20000" by auto
  from object_list[OF assms(1,3)] obtain x where
    x: "py_get task ''result'' (JList []) = Inr x" "py_iter x = Inr (task_results task)"
    by (auto simp: task_results_def)
  show ?thesis using c x by simp
qed

lemma located_tasks_complete:
  assumes "list_all wf_nested_task tasks"
    and "list_all has_both (nested_items (filter succeeds tasks))"
  shows "\<exists>rs lg. located_tasks tasks results st =
                   (Return (results @ rs), st\<lparr>logged := logged st @ lg\<rparr>)
                 \<and> list_all2 copied_item (nested_items (filter succeeds tasks)) rs
                 \<and> (\<forall>task\<in>set tasks. \<not> succeeds task \<longrightarrow>
                       Error [Lit ''Task error: '', Val (field_or task ''status_message'' JNull)]
                         \<in> set lg)"
  using assms
proof (induction tasks arbitrary: results st)
  case Nil
  have "located_tasks [] results st = (Return (results @ []), st\<lparr>logged := logged st @ []\<rparr>)
        \<and> list_all2 copied_item (nested_items (filter succeeds [])) []
        \<and> (\<forall>task\<in>set []. \<not> succeeds task \<longrightarrow>
               Error [Lit ''Task error: '', Val (field_or task ''status_message'' JNull)] \<in> set [])"
    by (simp add: nested_items_def)
  then show ?case by blast
next
  case (Cons task rest)
  from Cons.prems(1) have wf: "wf_nested_task task" and rest: "list_all wf_nested_task rest"
    by simp_all
  from wf have obj: "is_object task" by (simp add: wf_nested_task_def)
  show ?case
  proof (cases "succeeds task")
    case False
    let ?e = "Error [Lit ''Task error: '', Val (field_or task ''status_message'' JNull)]"
    let ?st = "logger_error [Lit ''Task error: '', Val (field_or task ''status_message'' JNull)] st"
    from Cons.prems(2) False have "list_all has_both (nested_items (filter succeeds rest))"
      by simp
    from Cons.IH[OF rest this, of results ?st] obtain rs lg where
      ih: "located_tasks rest results ?st = (Return (results @ rs), ?st\<lparr>logged := logged ?st @ lg\<rparr>)"
          "list_all2 copied_item (nested_items (filter succeeds rest)) rs"
          "\<forall>t\<in>set rest. \<not> succeeds t \<longrightarrow>
               Error [Lit ''Task error: '', Val (field_or t ''status_message'' JNull)] \<in> set lg"
      by blast
    have "located_tasks (task # rest) results st =
            (Return (results @ rs), st\<lparr>logged := logged st @ (?e # lg)\<rparr>)"
      using ih(1) by (simp add: located_tasks_failing[OF obj False] logger_error_def
                        del: located_tasks.simps)
    moreover have "list_all2 copied_item (nested_items (filter succeeds (task # rest))) rs"
      using False ih(2) by simp
    moreover have "\<forall>t\<in>set (task # rest). \<not> succeeds t \<longrightarrow>
        Error [Lit ''Task error: '', Val (field_or t ''status_message'' JNull)] \<in> set (?e # lg)"
      using ih(3) by simp
    ultimately show ?thesis by blast
  next
    case True
    note shape = nested_task_shape[OF wf True]
    from Cons.prems(2) True have c1: "list_all has_both (concat (map result_items (task_results task)))"
      and c2: "list_all has_both (nested_items (filter succeeds rest))"
      by (simp_all add: nested_items_succeeding del: filter.simps)
    from located_results_complete[OF shape(2) c1, of results] obtain rs1 where
      r1: "located_results (task_results task) results = Inr (results @ rs1)"
          "list_all2 copied_item (concat (map result_items (task_results task))) rs1"
      by blast
    from Cons.IH[OF rest c2, of "results @ rs1" st] obtain rs lg where
      ih: "located_tasks rest (results @ rs1) st =
             (Return ((results @ rs1) @ rs), st\<lparr>logged := logged st @ lg\<rparr>)"
          "list_all2 copied_item (nested_items (filter succeeds rest)) rs"
          "\<forall>t\<in>set rest. \<not> succeeds t \<longrightarrow>
               Error [Lit ''Task error: '', Val (field_or t ''status_message'' JNull)] \<in> set lg"
      by blast
    have "located_tasks (task # rest) results st =
            (Return (results @ (rs1 @ rs)), st\<lparr>logged := logged st @ lg\<rparr>)"
      using r1(1) ih(1) by (simp add: located_tasks_succeeding[OF obj True shape(1)]
                              del: located_tasks.simps)
    moreover have "list_all2 copied_item (nested_items (filter succeeds (task # rest))) (rs1 @ rs)"
      using r1(2) ih(2)
      by (simp add: nested_items_succeeding[OF True] list_all2_appendI del: filter.simps)
    moreover have "\<forall>t\<in>set (task # rest). \<not> succeeds t \<longrightarrow>
        Error [Lit ''Task error: '', Val (field_or t ''status_message'' JNull)] \<in> set lg"
      using True ih(3) by simp
    ultimately show ?thesis by blast
  qed
qed

lemma located_tasks_incomplete:
  assumes "list_all wf_nested_task tasks"
    and "\<not> list_all has_both (nested_items (filter succeeds tasks))"
  shows "\<exists>e. fst (located_tasks tasks results st) = Raise e \<and> missing_field e"
  using assms
proof (induction tasks arbitrary: results st)
  case Nil
  then show ?case by (simp add: nested_items_def)
next
  case (Cons task rest)
  from Cons.prems(1) have wf: "wf_nested_task task" and rest: "list_all wf_nested_task rest"
    by simp_all
  from wf have obj: "is_object task" by (simp add: wf_nested_task_def)
  show ?case
  proof (cases "succeeds task")
    case False
    from Cons.prems(2) False have "\<not> list_all has_both (nested_items (filter succeeds rest))"
      by simp
    from Cons.IH[OF rest this] show ?thesis
      by (simp add: located_tasks_failing[OF obj False] del: located_tasks.simps)
  next
    case True
    note shape = nested_task_shape[OF wf True]
    show ?thesis
    proof (cases "list_all has_both (concat (map result_items (task_results task)))")
      case False
      from located_results_incomplete[OF shape(2) False, of results] show ?thesis
        by (auto simp: located_tasks_succeeding[OF obj True shape(1)] simp del: located_tasks.simps)
    next
      case c1: True
      from located_results_complete[OF shape(2) c1, of results] obtain rs1 where
        r1: "located_results (task_results task) results = Inr (results @ rs1)" by blast
      from Cons.prems(2) True c1 have "\<not> list_all has_both (nested_items (filter succeeds rest))"
        by (simp add: nested_items_succeeding del: filter.simps)
      from Cons.IH[OF rest this, of "results @ rs1" st] r1 show ?thesis
        by (simp add: located_tasks_succeeding[OF obj True shape(1)] del: located_tasks.simps)
    qed
  qed
qed

lemma get_global_search_volume_walk:
  assumes "session st = Some s" and "0 < rate_limiter st"
    and "global_args_ok keywords"
    and "\<And>req. net (calls st) s req = Responds status response"
    and "is_object response" and "succeeds response"
    and "list_of_objects (lookup response ''tasks'')"
  shows "\<exists>st'. get_global_search_volume net keywords tag st
               = global_tasks (response_tasks response) [] st'"
proof -
  let ?data = "Some (JList [JObj (set_tag tag [(''keywords'', JList (map JStr keywords))])])"
  have "net (calls st) s (request_for ''POST''
            (endpoint_url st ''keywords_data/clickstream_data/search_volume_normalized/live'') ?data)
          = Responds status response"
    by (rule assms(4))
  from make_request_responds[of st s net, OF assms(1,2) this] obtain lg where
    "make_request net ''POST'' ''keywords_data/clickstream_data/search_volume_normalized/live''
       ?data st =
       (check_envelope response,
        st\<lparr>calls := calls st @ [request_for ''POST''
                  (endpoint_url st ''keywords_data/clickstream_data/search_volume_normalized/live'')
                  ?data],
           logged := logged st @ lg\<rparr>)"
    by blast
  then have "get_global_search_volume net keywords tag st
      = global_tasks (response_tasks response) []
         (st\<lparr>calls := calls st @ [request_for ''POST''
                  (endpoint_url st ''keywords_data/clickstream_data/search_volume_normalized/live'')
                  ?data],
           logged := logged st @ lg\<rparr>)"
    using get_global_search_volume_unfold[OF assms(3)] check_envelope_succeeds[OF assms(5,6)]
          tasks_of_response[OF assms(5,7)]
    by simp
  then show ?thesis by blast
qed

lemma get_search_volume_by_location_walk:
  assumes "session st = Some s" and "0 < rate_limiter st"
    and "by_location_args_ok keywords loc_name loc_code"
    and "\<And>req. net (calls st) s req = Responds status response"
    and "is_object response" and "succeeds response"
    and "list_of_objects (lookup response ''tasks'')"
  shows "\<exists>st'. get_search_volume_by_location net keywords loc_name loc_code tag st
               = located_tasks (response_tasks response) [] st'"
proof -
  let ?data = "Some (JList [JObj (set_tag tag (set_location loc_name loc_code
                                          [(''keywords'', JList (map JStr keywords))]))])"
  have "net (calls st) s (request_for ''POST''
            (endpoint_url st ''keywords_data/clickstream_data/search_volume_by_location/live'') ?data)
          = Responds status response"
    by (rule assms(4))
  from make_request_responds[of st s net, OF assms(1,2) this] obtain lg where
    "make_request net ''POST'' ''keywords_data/clickstream_data/search_volume_by_location/live''
       ?data st =
       (check_envelope response,
        st\<lparr>calls := calls st @ [request_for ''POST''
                  (endpoint_url st ''keywords_data/clickstream_data/search_volume_by_location/live'')
                  ?data],
           logged := logged st @ lg\<rparr>)"
    by blast
  then have "get_search_volume_by_location net keywords loc_name loc_code tag st
      = located_tasks (response_tasks response) []
         (st\<lparr>calls := calls st @ [request_for ''POST''
                  (endpoint_url st ''keywords_data/clickstream_data/search_volume_by_location/live'')
                  ?data],
           logged := logged st @ lg\<rparr>)"
    using get_search_volume_by_location_unfold[OF assms(3)] check_envelope_succeeds[OF assms(5,6)]
          tasks_of_response[OF assms(5,7)]
    by simp
  then show ?thesis by blast
qed

lemma get_search_volume_partial:
  assumes "session st = Some s" and "0 < rate_limiter st"
    and "search_volume_args_ok keywords loc_name loc_code lang_name lang_code"
    and "\<And>req. net (calls st) s req = Responds status response"
    and "succeeds response" and "wf_response response"
  shows "\<exists>results st'.
           get_search_volume net keywords loc_name loc_code lang_name lang_code clickstream tag st
             = (Return results, st')
           \<and> list_all2 copied
                (filter has_both
                   (concat (map task_results (filter succeeds (response_tasks response)))))
                results
           \<and> failures_logged (response_tasks response) st'"
proof -
  from assms(6) have obj: "is_object response" and lst: "list_of_objects (lookup response ''tasks'')"
    and wf: "list_all wf_task (response_tasks response)"
    by (simp_all add: wf_response_def)
  from get_search_volume_walk[of st s "keywords" loc_name loc_code lang_name lang_code net,
         OF assms(1-4) obj assms(5) lst] obtain st0 where
    walk: "get_search_volume net keywords loc_name loc_code lang_name lang_code clickstream tag st
             = search_volume_tasks (response_tasks response) [] st0"
    by blast
  from search_volume_tasks_wf[OF wf, of "[]" st0] obtain rs lg where
    rs: "search_volume_tasks (response_tasks response) [] st0 =
           (Return ([] @ rs), st0\<lparr>logged := logged st0 @ lg\<rparr>)"
        "list_all2 copied (filter has_both
           (concat (map task_results (filter succeeds (response_tasks response))))) rs"
        "\<forall>task\<in>set (response_tasks response). \<not> succeeds task \<longrightarrow>
           Error [Lit ''Task error: '', Val (field_or task ''status_message'' JNull)] \<in> set lg"
    by blast
  let ?st' = "st0\<lparr>logged := logged st0 @ lg\<rparr>"
  have "get_search_volume net keywords loc_name loc_code lang_name lang_code clickstream tag st
          = (Return rs, ?st')"
    using walk rs(1) by simp
  moreover have "failures_logged (response_tasks response) ?st'"
    using rs(3) by (simp add: failures_logged_def)
  ultimately show ?thesis using rs(2) by blast
qed

lemma get_global_search_volume_partial:
  assumes "session st = Some s" and "0 < rate_limiter st"
    and "global_args_ok keywords"
    and "\<And>req. net (calls st) s req = Responds status response"
    and "succeeds response" and "wf_nested_response response"
    and "list_all has_both (nested_items (filter succeeds (response_tasks response)))"
  shows "\<exists>results st'.
           get_global_search_volume net keywords tag st = (Return results, st')
           \<and> list_all2 copied_global
                (nested_items (filter succeeds (response_tasks response))) results
           \<and> failures_logged (response_tasks response) st'"
proof -
  from assms(6) have obj: "is_object response" and lst: "list_of_objects (lookup response ''tasks'')"
    and wf: "list_all wf_nested_task (response_tasks response)"
    by (simp_all add: wf_nested_response_def)
  from get_global_search_volume_walk[of st s "keywords" net, OF assms(1-4) obj assms(5) lst]
  obtain st0 where
    walk: "get_global_search_volume net keywords tag st
             = global_tasks (response_tasks response) [] st0"
    by blast
  from global_tasks_complete[OF wf assms(7), of "[]" st0] obtain rs lg where
    rs: "global_tasks (response_tasks response) [] st0 =
           (Return ([] @ rs), st0\<lparr>logged := logged st0 @ lg\<rparr>)"
        "list_all2 copied_global (nested_items (filter succeeds (response_tasks response))) rs"
        "\<forall>task\<in>set (response_tasks response). \<not> succeeds task \<longrightarrow>
           Error [Lit ''Task error: '', Val (field_or task ''status_message'' JNull)] \<in> set lg"
    by blast
  let ?st' = "st0\<lparr>logged := logged st0 @ lg\<rparr>"
  have "get_global_search_volume net keywords tag st = (Return rs, ?st')"
    using walk rs(1) by simp
  moreover have "failures_logged (response_tasks response) ?st'"
    using rs(3) by (simp add: failures_logged_def)
  ultimately show ?thesis using rs(2) by blast
qed

lemma get_search_volume_by_location_partial:
  assumes "session st = Some s" and "0 < rate_limiter st"
    and "by_location_args_ok keywords loc_name loc_code"
    and "\<And>req. net (calls st) s req = Responds status response"
    and "succeeds response" and "wf_nested_response response"
    and "list_all has_both (nested_items (filter succeeds (response_tasks response)))"
  shows "\<exists>results st'.
           get_search_volume_by_location net keywords loc_name loc_code tag st = (Return results, st')
           \<and> list_all2 copied_item
                (nested_items (filter succeeds (response_tasks response))) results
           \<and> failures_logged (response_tasks response) st'"
proof -
  from assms(6) have obj: "is_object response" and lst: "list_of_objects (lookup response ''tasks'')"
    and wf: "list_all wf_nested_task (response_tasks response)"
    by (simp_all add: wf_nested_response_def)
  from get_search_volume_by_location_walk[of st s "keywords" loc_name loc_code net,
         OF assms(1-4) obj assms(5) lst]
  obtain st0 where
    walk: "get_search_volume_by_location net keywords loc_name loc_code tag st
             = located_tasks (response_tasks response) [] st0"
    by blast
  from located_tasks_complete[OF wf assms(7), of "[]" st0] obtain rs lg where
    rs: "located_tasks (response_tasks response) [] st0 =
           (Return ([] @ rs), st0\<lparr>logged := logged st0 @ lg\<rparr>)"
        "list_all2 copied_item (nested_items (filter succeeds (response_tasks response))) rs"
        "\<forall>task\<in>set (response_tasks response). \<not> succeeds task \<longrightarrow>
           Error [Lit ''Task error: '', Val (field_or task ''status_message'' JNull)] \<in> set lg"
    by blast
  let ?st' = "st0\<lparr>logged := logged st0 @ lg\<rparr>"
  have "get_search_volume_by_location net keywords loc_name loc_code tag st = (Return rs, ?st')"
    using walk rs(1) by simp
  moreover have "failures_logged (response_tasks response) ?st'"
    using rs(3) by (simp add: failures_logged_def)
  ultimately show ?thesis using rs(2) by blast
qed

section \<open>Evaluation of concrete runs\<close>

text \<open>
  The operations evaluated on the responses above, by rewriting with the definitions:
  the records come out in the order of the items, the monthly figures in the order
  received; the item without a volume is dropped by \<^verbatim>\<open>get_search_volume\<close> and raises in
  the two operations that read nested items; a failing task leaves its two error
  records in the log.
\<close>

lemmas run_defs =
  get_search_volume_def make_request_def attempt_def request_for_def check_envelope_def
  tasks_of_def construct_result_def search_volume_payload_def set_tag_def set_language_def
  set_location_def truthy_str_def truthy_int_def str_value_def int_value_def
  logger_info_def logger_error_def logger_error_exc_def response_line_def
  fixture_def acquired_def unacquired_def released_def init_def aenter_def aexit_def
  ok_response_def partial_response_def error_response_def nested_response_def
  item_seo_def item_research_def item_no_volume_def month_def Let_def

lemma run_ok:
  "fst (get_search_volume (fixture 200 ok_response) [''seo tools'', ''keyword research'']
          (Some ''United States'') None (Some ''English'') None True None acquired)
   = Return [\<lparr>keyword = JStr ''seo tools'', search_volume = JInt 1000,
               monthly_searches = JList [month 2024 2 900, month 2023 12 1200, month 2024 1 1100],
               location_code = JNull, language_code = JNull, use_clickstream = JBool True\<rparr>,
             \<lparr>keyword = JStr ''keyword research'', search_volume = JInt 500,
               monthly_searches = JList [],
               location_code = JNull, language_code = JNull, use_clickstream = JBool True\<rparr>]"
  by (simp add: run_defs)

lemmas shape_defs =
  wf_response_def wf_task_def is_object_def list_of_objects_def lookup_def succeeds_def
  response_tasks_def task_results_def elements_def search_volume_args_ok_def
  truthy_str_def truthy_int_def open_session_def
  fixture_def acquired_def unacquired_def init_def aenter_def
  ok_response_def partial_response_def error_response_def nested_response_def
  item_seo_def item_research_def item_no_volume_def month_def

lemma run_partial:
  "fst (get_search_volume (fixture 200 partial_response) [''seo tools'', ''keyword research'']
          (Some ''United States'') None (Some ''English'') None True None acquired)
   = Return [\<lparr>keyword = JStr ''keyword research'', search_volume = JInt 500,
               monthly_searches = JList [],
               location_code = JNull, language_code = JNull, use_clickstream = JBool True\<rparr>]"
  by (simp add: run_defs)

lemma run_partial_log:
  "logged (snd (get_search_volume (fixture 200 partial_response) [''seo tools'', ''keyword research'']
          (Some ''United States'') None (Some ''English'') None True None acquired))
   = [Info [Lit ''POST https://api.dataforseo.com/v3/keywords_data/google/search_volume/live''],
      Info [Lit ''POST https://api.dataforseo.com/v3/keywords_data/google/search_volume/live - '',
            Val (JInt 200), Lit '' - '', Elapsed, Lit ''s''],
      Error [Lit ''Task error: '', Val (JStr ''Invalid Field'')],
      Error [Lit ''Task data: '', Val JNull],
      Info [Lit ''Processed keyword: '', Val (JStr ''keyword research''), Lit '' - Volume: '',
            Val (JInt 500)]]"
  by (simp add: run_defs)

lemma run_payload:
  "calls (snd (get_search_volume (fixture 200 ok_response) [''seo tools'']
                 (Some ''United States'') (Some 2840) None (Some ''en'') True (Some ''batch-1'')
                 acquired))
   = [\<lparr>verb = POST,
       target = ''https://api.dataforseo.com/v3/keywords_data/google/search_volume/live'',
       json_arg = Some (JList [JObj [(''keywords'', JList [JStr ''seo tools'']),
                                     (''use_clickstream'', JBool True),
                                     (''location_name'', JStr ''United States''),
                                     (''language_code'', JStr ''en''),
                                     (''tag'', JStr ''batch-1'')]])\<rparr>]"
  by (simp add: run_defs)

lemmas nested_shape_defs =
  wf_nested_response_def wf_nested_task_def nested_items_def result_items_def has_both_def
  global_args_ok_def by_location_args_ok_def nested_partial_response_def

lemmas nested_run_defs =
  get_global_search_volume_def get_search_volume_by_location_def construct_global_def
  construct_located_def

lemma run_nested_global:
  "fst (get_global_search_volume (fixture 200 nested_response)
          [''keyword research'', ''unknown phrase''] None acquired)
   = Raise (KeyError ''search_volume'')"
  by (simp add: run_defs nested_run_defs)

lemma run_nested_located:
  "fst (get_search_volume_by_location (fixture 200 nested_response)
          [''keyword research'', ''unknown phrase''] None (Some 2840) None acquired)
   = Raise (KeyError ''search_volume'')"
  by (simp add: run_defs nested_run_defs)

lemma run_dropped:
  "fst (get_search_volume (fixture 200 ok_response) [''unknown phrase'']
          (Some ''United States'') None (Some ''English'') None True None acquired)
   = Return [\<lparr>keyword = JStr ''seo tools'', search_volume = JInt 1000,
               monthly_searches = JList [month 2024 2 900, month 2023 12 1200, month 2024 1 1100],
               location_code = JNull, language_code = JNull, use_clickstream = JBool True\<rparr>,
             \<lparr>keyword = JStr ''keyword research'', search_volume = JInt 500,
               monthly_searches = JList [],
               location_code = JNull, language_code = JNull, use_clickstream = JBool True\<rparr>]"
  by (simp add: run_defs)

section \<open>The claims\<close>

text \<open>
  C1. When the envelope of the response succeeds and every task succeeds,
  \<^verbatim>\<open>get_search_volume\<close> returns one record for each result item that has both a
  \<^verbatim>\<open>keyword\<close> and a \<^verbatim>\<open>search_volume\<close> field, in the order of the items; the record has
  the item's \<^verbatim>\<open>keyword\<close>, \<^verbatim>\<open>search_volume\<close> and \<^verbatim>\<open>monthly_searches\<close> as they were received
  (the list of monthly figures is the same list, not re-sorted); the items that lack one
  of the two fields contribute nothing. The client is inside its scope, a slot of the
  rate limiter is free, the arguments are valid, and the response has the shape of the
  wire protocol.
\<close>

theorem get_search_volume_one_record_per_item:
  assumes "session st = Some s" and "0 < rate_limiter st"
    and "search_volume_args_ok keywords loc_name loc_code lang_name lang_code"
    and "\<And>req. net (calls st) s req = Responds status response"
    and "succeeds response" and "wf_response response"
    and "list_all succeeds (response_tasks response)"
  shows "\<exists>results.
           fst (get_search_volume net keywords loc_name loc_code lang_name lang_code clickstream tag st)
             = Return results
           \<and> list_all2 copied
                (filter has_both (concat (map task_results (response_tasks response)))) results"
proof -
  from assms(6) have obj: "is_object response" and lst: "list_of_objects (lookup response ''tasks'')"
    and wf: "list_all wf_task (response_tasks response)"
    by (simp_all add: wf_response_def)
  from get_search_volume_walk[of st s "keywords" loc_name loc_code lang_name lang_code net,
         OF assms(1-4) obj assms(5) lst] obtain st' where
    walk: "get_search_volume net keywords loc_name loc_code lang_name lang_code clickstream tag st
             = search_volume_tasks (response_tasks response) [] st'"
    by blast
  from search_volume_tasks_wf[OF wf, of "[]" st'] obtain rs lg where
    rs: "search_volume_tasks (response_tasks response) [] st' =
           (Return ([] @ rs), st'\<lparr>logged := logged st' @ lg\<rparr>)"
        "list_all2 copied (filter has_both
           (concat (map task_results (filter succeeds (response_tasks response))))) rs"
    by blast
  from assms(7) have "filter succeeds (response_tasks response) = response_tasks response"
    by (simp add: list_all_iff)
  with rs(2) have "list_all2 copied
      (filter has_both (concat (map task_results (response_tasks response)))) rs"
    by simp
  moreover have "fst (get_search_volume net keywords loc_name loc_code lang_name lang_code
                        clickstream tag st) = Return rs"
    using walk rs(1) by simp
  ultimately show ?thesis by blast
qed

theorem get_search_volume_one_record_per_item_witness:
  "\<exists>results.
     fst (get_search_volume (fixture 200 ok_response) [''seo tools'', ''keyword research'']
            (Some ''United States'') None (Some ''English'') None True None acquired)
       = Return results
     \<and> list_all2 copied
          (filter has_both (concat (map task_results (response_tasks ok_response)))) results"
  using get_search_volume_one_record_per_item[of acquired open_session
          "[''seo tools'', ''keyword research'']" "Some ''United States''" None "Some ''English''" None
          "fixture 200 ok_response" 200 ok_response True None]
  by (simp add: shape_defs)

text \<open>
  C2, as the code has it. On a client that was never entered, every query operation whose
  arguments pass its validation raises the \<^verbatim>\<open>DataForSEOError\<close> of a client that is not
  initialized (the spec's ClientNotInitialized), and leaves the state as it was: no
  request is handed to a session, nothing is logged.
\<close>

theorem query_before_acquisition:
  assumes "session st = None"
  shows "get_locations_and_languages net st = (Raise not_initialized, st)
         \<and> (search_volume_args_ok keywords loc_name loc_code lang_name lang_code \<longrightarrow>
              get_search_volume net keywords loc_name loc_code lang_name lang_code clickstream tag st
                = (Raise not_initialized, st))
         \<and> (global_args_ok keywords \<longrightarrow>
              get_global_search_volume net keywords tag st = (Raise not_initialized, st))
         \<and> (by_location_args_ok keywords loc_name loc_code \<longrightarrow>
              get_search_volume_by_location net keywords loc_name loc_code tag st
                = (Raise not_initialized, st))"
proof -
  have request: "\<And>m ep d. make_request net m ep d st = (Raise not_initialized, st)"
    using assms by (simp add: make_request_def not_initialized_def)
  have "get_locations_and_languages net st = (Raise not_initialized, st)"
    by (simp add: get_locations_and_languages_def request)
  moreover have "get_search_volume net keywords loc_name loc_code lang_name lang_code
                   clickstream tag st = (Raise not_initialized, st)"
    if "search_volume_args_ok keywords loc_name loc_code lang_name lang_code"
    by (simp add: get_search_volume_unfold[OF that request])
  moreover have "get_global_search_volume net keywords tag st = (Raise not_initialized, st)"
    if "global_args_ok keywords"
    by (simp add: get_global_search_volume_unfold[OF that request])
  moreover have "get_search_volume_by_location net keywords loc_name loc_code tag st
                   = (Raise not_initialized, st)"
    if "by_location_args_ok keywords loc_name loc_code"
    by (simp add: get_search_volume_by_location_unfold[OF that request])
  ultimately show ?thesis by blast
qed

theorem query_before_acquisition_witness:
  "get_locations_and_languages (fixture 200 ok_response) unacquired
     = (Raise not_initialized, unacquired)
   \<and> get_search_volume (fixture 200 ok_response) [''seo tools''] (Some ''United States'') None
        (Some ''English'') None True None unacquired
     = (Raise not_initialized, unacquired)
   \<and> get_global_search_volume (fixture 200 ok_response) [''seo tools''] None unacquired
     = (Raise not_initialized, unacquired)
   \<and> get_search_volume_by_location (fixture 200 ok_response) [''seo tools'']
        (Some ''United States'') None None unacquired
     = (Raise not_initialized, unacquired)"
  using query_before_acquisition[of unacquired "fixture 200 ok_response" "[''seo tools'']"
          "Some ''United States''" None "Some ''English''" None True None]
  by (simp add: unacquired_def init_def search_volume_args_ok_def global_args_ok_def
                by_location_args_ok_def truthy_str_def truthy_int_def)

text \<open>
  C2, as the claim states it, fails in two ways. After release the session attribute
  still holds the closed session, so the guard of \<^verbatim>\<open>_make_request\<close> does not fire and
  the request goes to the session; with a transport that refuses a closed session
  the call raises that transport's error, not the one of a client that is not
  initialized. And before acquisition, arguments that fail the validation raise
  \<^verbatim>\<open>ValueError\<close>, since the validation comes first.
\<close>

theorem query_outside_acquired_counterexample:
  "session released = Some \<lparr>timeout_total = 30, closed = True\<rparr>
   \<and> fst (get_search_volume (refusing_closed (fixture 200 ok_response)) [''seo tools'']
            (Some ''United States'') None (Some ''English'') None True None released)
       = Raise (Other ''RuntimeError'' ''Session is closed'')
   \<and> fst (get_search_volume (refusing_closed (fixture 200 ok_response)) [''seo tools'']
            (Some ''United States'') None (Some ''English'') None True None released)
       \<noteq> Raise not_initialized
   \<and> session unacquired = None
   \<and> fst (get_search_volume (fixture 200 ok_response) [] (Some ''United States'') None
            (Some ''English'') None True None unacquired)
       = Raise (ValueError [Lit ''Keywords list cannot be empty''])
   \<and> fst (get_search_volume (fixture 200 ok_response) [] (Some ''United States'') None
            (Some ''English'') None True None unacquired)
       \<noteq> Raise not_initialized"
  by (simp add: run_defs refusing_closed_def on_transport_error_def not_initialized_def)

text \<open>
  C3. \<^verbatim>\<open>get_search_volume\<close> called with an empty keyword list, with more than 1000
  keywords, with neither a location name nor a location code, or with neither a language
  name nor a language code raises \<^verbatim>\<open>ValueError\<close> (the spec's InvalidArgument) and leaves
  the state as it was: no request is handed to the session, whatever the client's
  state and the transport. A missing argument is \<open>None\<close>, which is not truthy.
\<close>

theorem get_search_volume_invalid_argument:
  assumes "keywords = [] \<or> 1000 < length keywords
           \<or> (\<not> truthy_str loc_name \<and> \<not> truthy_int loc_code)
           \<or> (\<not> truthy_str lang_name \<and> \<not> truthy_str lang_code)"
  shows "\<exists>m. get_search_volume net keywords loc_name loc_code lang_name lang_code clickstream tag st
             = (Raise (ValueError m), st)"
proof -
  from assms have "\<not> search_volume_args_ok keywords loc_name loc_code lang_name lang_code"
    by (auto simp: search_volume_args_ok_def)
  then show ?thesis by (rule get_search_volume_invalid)
qed

theorem get_search_volume_invalid_argument_witness:
  "(\<exists>m. get_search_volume (fixture 200 ok_response) [] (Some ''United States'') None
           (Some ''English'') None True None acquired = (Raise (ValueError m), acquired))
   \<and> (\<exists>m. get_search_volume (fixture 200 ok_response) (replicate 1001 ''seo tools'')
           (Some ''United States'') None (Some ''English'') None True None acquired
         = (Raise (ValueError m), acquired))
   \<and> (\<exists>m. get_search_volume (fixture 200 ok_response) [''seo tools''] None None
           (Some ''English'') None True None acquired = (Raise (ValueError m), acquired))
   \<and> (\<exists>m. get_search_volume (fixture 200 ok_response) [''seo tools''] (Some ''United States'') None
           None None True None acquired = (Raise (ValueError m), acquired))"
  using get_search_volume_invalid_argument[of "[]" "Some ''United States''" None "Some ''English''" None
          "fixture 200 ok_response" True None acquired]
        get_search_volume_invalid_argument[of "replicate 1001 ''seo tools''" "Some ''United States''" None
          "Some ''English''" None "fixture 200 ok_response" True None acquired]
        get_search_volume_invalid_argument[of "[''seo tools'']" None None "Some ''English''" None
          "fixture 200 ok_response" True None acquired]
        get_search_volume_invalid_argument[of "[''seo tools'']" "Some ''United States''" None None None
          "fixture 200 ok_response" True None acquired]
  by (simp add: truthy_str_def truthy_int_def)

text \<open>
  C4. \<^verbatim>\<open>get_global_search_volume\<close> called with an empty keyword list, or with a list
  that has a keyword of fewer than 3 characters, raises \<^verbatim>\<open>ValueError\<close> and leaves the state
  as it was: no request is handed to the session.
\<close>

theorem get_global_search_volume_invalid_argument:
  assumes "keywords = [] \<or> (\<exists>kw\<in>set keywords. length kw < 3)"
  shows "\<exists>m. get_global_search_volume net keywords tag st = (Raise (ValueError m), st)"
proof -
  from assms have "\<not> global_args_ok keywords"
    by (auto simp: global_args_ok_def list_all_iff dest: leD)
  then show ?thesis by (rule get_global_search_volume_invalid)
qed

theorem get_global_search_volume_invalid_argument_witness:
  "(\<exists>m. get_global_search_volume (fixture 200 nested_response) [] None acquired
         = (Raise (ValueError m), acquired))
   \<and> (\<exists>m. get_global_search_volume (fixture 200 nested_response) [''seo tools'', ''ab''] None acquired
         = (Raise (ValueError m), acquired))"
  using get_global_search_volume_invalid_argument[of "[]" "fixture 200 nested_response" None acquired]
        get_global_search_volume_invalid_argument[of "[''seo tools'', ''ab'']"
          "fixture 200 nested_response" None acquired]
  by simp

text \<open>
  C5. When the envelope of the response does not succeed, each of the four operations
  raises the \<^verbatim>\<open>DataForSEOError\<close> that carries the envelope's status code and status
  message, and so returns no results. The client is inside its scope, a slot of the rate
  limiter is free and the arguments are valid, so that the request is made and answered;
  the response is an object, so that it has an envelope.
\<close>

theorem failed_envelope_raises_api_error:
  assumes "session st = Some s" and "0 < rate_limiter st"
    and "\<And>req. net (calls st) s req = Responds status response"
    and "is_object response" and "\<not> succeeds response"
  shows "fst (get_locations_and_languages net st) = Raise (api_error response)
         \<and> (search_volume_args_ok keywords loc_name loc_code lang_name lang_code \<longrightarrow>
              fst (get_search_volume net keywords loc_name loc_code lang_name lang_code
                     clickstream tag st) = Raise (api_error response))
         \<and> (global_args_ok keywords \<longrightarrow>
              fst (get_global_search_volume net keywords tag st) = Raise (api_error response))
         \<and> (by_location_args_ok keywords loc_name loc_code \<longrightarrow>
              fst (get_search_volume_by_location net keywords loc_name loc_code tag st)
                = Raise (api_error response))"
proof -
  have request: "\<And>m ep d.
      \<exists>st'. make_request net m ep d st = (Raise (api_error response), st')"
  proof -
    fix m ep d
    have "net (calls st) s (request_for m (endpoint_url st ep) d) = Responds status response"
      by (rule assms(3))
    from make_request_responds[of st s net, OF assms(1,2) this]
    show "\<exists>st'. make_request net m ep d st = (Raise (api_error response), st')"
      by (auto simp: check_envelope_fails[OF assms(4,5)])
  qed
  have "fst (get_locations_and_languages net st) = Raise (api_error response)"
    using request[of "''GET''" "''keywords_data/clickstream_data/locations_and_languages''" None]
    by (auto simp: get_locations_and_languages_def)
  moreover have "fst (get_search_volume net keywords loc_name loc_code lang_name lang_code
                        clickstream tag st) = Raise (api_error response)"
    if "search_volume_args_ok keywords loc_name loc_code lang_name lang_code"
    using request[of "''POST''" "''keywords_data/google/search_volume/live''"
            "Some (JList [JObj (search_volume_payload keywords loc_name loc_code
                                  lang_name lang_code clickstream tag)])"]
          get_search_volume_unfold[OF that]
    by auto
  moreover have "fst (get_global_search_volume net keywords tag st) = Raise (api_error response)"
    if "global_args_ok keywords"
    using request[of "''POST''" "''keywords_data/clickstream_data/search_volume_normalized/live''"
            "Some (JList [JObj (set_tag tag [(''keywords'', JList (map JStr keywords))])])"]
          get_global_search_volume_unfold[OF that]
    by auto
  moreover have "fst (get_search_volume_by_location net keywords loc_name loc_code tag st)
                   = Raise (api_error response)"
    if "by_location_args_ok keywords loc_name loc_code"
    using request[of "''POST''" "''keywords_data/clickstream_data/search_volume_by_location/live''"
            "Some (JList [JObj (set_tag tag (set_location loc_name loc_code
                                   [(''keywords'', JList (map JStr keywords))]))])"]
          get_search_volume_by_location_unfold[OF that]
    by auto
  ultimately show ?thesis by blast
qed

theorem failed_envelope_raises_api_error_witness:
  "fst (get_locations_and_languages (fixture 401 error_response) acquired)
     = Raise (DataForSEOError [Lit ''API error '', Val (JInt 40100), Lit '': '',
                               Val (JStr ''Not authorized'')])
   \<and> fst (get_search_volume (fixture 401 error_response) [''seo tools''] (Some ''United States'') None
            (Some ''English'') None True None acquired)
     = Raise (DataForSEOError [Lit ''API error '', Val (JInt 40100), Lit '': '',
                               Val (JStr ''Not authorized'')])
   \<and> fst (get_global_search_volume (fixture 401 error_response) [''seo tools''] None acquired)
     = Raise (DataForSEOError [Lit ''API error '', Val (JInt 40100), Lit '': '',
                               Val (JStr ''Not authorized'')])
   \<and> fst (get_search_volume_by_location (fixture 401 error_response) [''seo tools'']
            (Some ''United States'') None None acquired)
     = Raise (DataForSEOError [Lit ''API error '', Val (JInt 40100), Lit '': '',
                               Val (JStr ''Not authorized'')])"
  using failed_envelope_raises_api_error[of acquired open_session "fixture 401 error_response" 401
          error_response "[''seo tools'']" "Some ''United States''" None "Some ''English''" None
          True None]
  by (simp add: shape_defs api_error_def field_or_def global_args_ok_def by_location_args_ok_def)

text \<open>
  C6. When the envelope succeeds, a task whose own status code is not the success code
  does not make a query operation raise: the operation logs the task's error, passes
  over the task, and returns the records of the items of the tasks that succeed, in
  their order. For \<^verbatim>\<open>get_search_volume\<close> these are the items that have both fields; the
  two operations that read \<^verbatim>\<open>result[].items[]\<close> return one record for each item,
  provided each has both fields. The response has the shape of the wire protocol; a
  failing task is only required to be an object, its \<^verbatim>\<open>result\<close> may be anything.
\<close>

theorem failing_tasks_are_skipped:
  assumes "session st = Some s" and "0 < rate_limiter st"
    and "\<And>req. net (calls st) s req = Responds status response"
    and "succeeds response"
  shows "(search_volume_args_ok keywords loc_name loc_code lang_name lang_code
            \<and> wf_response response \<longrightarrow>
          (\<exists>results st'.
             get_search_volume net keywords loc_name loc_code lang_name lang_code clickstream tag st
               = (Return results, st')
             \<and> list_all2 copied
                  (filter has_both
                     (concat (map task_results (filter succeeds (response_tasks response)))))
                  results
             \<and> failures_logged (response_tasks response) st'))
         \<and> (global_args_ok keywords \<and> wf_nested_response response
              \<and> list_all has_both (nested_items (filter succeeds (response_tasks response))) \<longrightarrow>
            (\<exists>results st'.
               get_global_search_volume net keywords tag st = (Return results, st')
               \<and> list_all2 copied_global
                    (nested_items (filter succeeds (response_tasks response))) results
               \<and> failures_logged (response_tasks response) st'))
         \<and> (by_location_args_ok keywords loc_name loc_code \<and> wf_nested_response response
              \<and> list_all has_both (nested_items (filter succeeds (response_tasks response))) \<longrightarrow>
            (\<exists>results st'.
               get_search_volume_by_location net keywords loc_name loc_code tag st
                 = (Return results, st')
               \<and> list_all2 copied_item
                    (nested_items (filter succeeds (response_tasks response))) results
               \<and> failures_logged (response_tasks response) st'))"
  using get_search_volume_partial[of st s "keywords" loc_name loc_code lang_name lang_code net
          status response clickstream tag, OF assms(1,2) _ assms(3,4)]
        get_global_search_volume_partial[of st s "keywords" net status response tag,
          OF assms(1,2) _ assms(3,4)]
        get_search_volume_by_location_partial[of st s "keywords" loc_name loc_code net
          status response tag, OF assms(1,2) _ assms(3,4)]
  by blast

theorem failing_tasks_are_skipped_witness:
  "(\<exists>results st'.
      get_search_volume (fixture 200 partial_response) [''seo tools'', ''keyword research'']
        (Some ''United States'') None (Some ''English'') None True None acquired
        = (Return results, st')
      \<and> list_all2 copied
           (filter has_both
              (concat (map task_results (filter succeeds (response_tasks partial_response)))))
           results
      \<and> length results = 1
      \<and> failures_logged (response_tasks partial_response) st')
   \<and> (\<exists>results st'.
        get_global_search_volume (fixture 200 nested_partial_response)
          [''seo tools'', ''keyword research''] None acquired = (Return results, st')
        \<and> list_all2 copied_global
             (nested_items (filter succeeds (response_tasks nested_partial_response))) results
        \<and> length results = 1
        \<and> failures_logged (response_tasks nested_partial_response) st')
   \<and> (\<exists>results st'.
        get_search_volume_by_location (fixture 200 nested_partial_response)
          [''seo tools'', ''keyword research''] (Some ''United States'') None None acquired
          = (Return results, st')
        \<and> list_all2 copied_item
             (nested_items (filter succeeds (response_tasks nested_partial_response))) results
        \<and> length results = 1
        \<and> failures_logged (response_tasks nested_partial_response) st')"
proof -
  have a: "length (filter has_both
              (concat (map task_results (filter succeeds (response_tasks partial_response))))) = 1"
    by (simp add: shape_defs nested_shape_defs)
  have b: "length (nested_items (filter succeeds (response_tasks nested_partial_response))) = 1"
    by (simp add: shape_defs nested_shape_defs)
  from failing_tasks_are_skipped[of acquired open_session "fixture 200 partial_response" 200
          partial_response "[''seo tools'', ''keyword research'']" "Some ''United States''" None
          "Some ''English''" None True None]
  have "\<exists>results st'.
      get_search_volume (fixture 200 partial_response) [''seo tools'', ''keyword research'']
        (Some ''United States'') None (Some ''English'') None True None acquired
        = (Return results, st')
      \<and> list_all2 copied
           (filter has_both
              (concat (map task_results (filter succeeds (response_tasks partial_response)))))
           results
      \<and> failures_logged (response_tasks partial_response) st'"
    by (simp add: shape_defs)
  with a have first: "\<exists>results st'.
      get_search_volume (fixture 200 partial_response) [''seo tools'', ''keyword research'']
        (Some ''United States'') None (Some ''English'') None True None acquired
        = (Return results, st')
      \<and> list_all2 copied
           (filter has_both
              (concat (map task_results (filter succeeds (response_tasks partial_response)))))
           results
      \<and> length results = 1
      \<and> failures_logged (response_tasks partial_response) st'"
    by (metis list_all2_lengthD)
  from failing_tasks_are_skipped[of acquired open_session "fixture 200 nested_partial_response" 200
          nested_partial_response "[''seo tools'', ''keyword research'']" "Some ''United States''"
          None "Some ''English''" None True None]
  have "(\<exists>results st'.
        get_global_search_volume (fixture 200 nested_partial_response)
          [''seo tools'', ''keyword research''] None acquired = (Return results, st')
        \<and> list_all2 copied_global
             (nested_items (filter succeeds (response_tasks nested_partial_response))) results
        \<and> failures_logged (response_tasks nested_partial_response) st')
   \<and> (\<exists>results st'.
        get_search_volume_by_location (fixture 200 nested_partial_response)
          [''seo tools'', ''keyword research''] (Some ''United States'') None None acquired
          = (Return results, st')
        \<and> list_all2 copied_item
             (nested_items (filter succeeds (response_tasks nested_partial_response))) results
        \<and> failures_logged (response_tasks nested_partial_response) st')"
    by (simp add: shape_defs nested_shape_defs lookup_def elements_def)
  with b have "(\<exists>results st'.
        get_global_search_volume (fixture 200 nested_partial_response)
          [''seo tools'', ''keyword research''] None acquired = (Return results, st')
        \<and> list_all2 copied_global
             (nested_items (filter succeeds (response_tasks nested_partial_response))) results
        \<and> length results = 1
        \<and> failures_logged (response_tasks nested_partial_response) st')
   \<and> (\<exists>results st'.
        get_search_volume_by_location (fixture 200 nested_partial_response)
          [''seo tools'', ''keyword research''] (Some ''United States'') None None acquired
          = (Return results, st')
        \<and> list_all2 copied_item
             (nested_items (filter succeeds (response_tasks nested_partial_response))) results
        \<and> length results = 1
        \<and> failures_logged (response_tasks nested_partial_response) st')"
    by (metis list_all2_lengthD)
  with first show ?thesis by blast
qed

text \<open>
  C7. For arguments that pass the validation, on a client inside its scope with a free
  slot, \<^verbatim>\<open>get_search_volume\<close> hands one request to the session: a POST whose JSON body is
  a one-element list holding one object. The object has the keywords and the
  \<^verbatim>\<open>use_clickstream\<close> flag; exactly one of \<^verbatim>\<open>location_name\<close> and \<^verbatim>\<open>location_code\<close>, the name
  when a name is supplied; exactly one of \<^verbatim>\<open>language_name\<close> and \<^verbatim>\<open>language_code\<close>, again the
  name when it is supplied; a \<^verbatim>\<open>tag\<close> exactly when one is supplied; and no other key.
  Supplied is meant as the code tests it: not \<^verbatim>\<open>None\<close>, and not the empty string or zero.
\<close>

theorem get_search_volume_payload_sent:
  assumes "session st = Some s" and "0 < rate_limiter st"
    and "search_volume_args_ok keywords loc_name loc_code lang_name lang_code"
  shows "\<exists>p. calls (snd (get_search_volume net keywords loc_name loc_code lang_name lang_code
                            clickstream tag st))
               = calls st @ [\<lparr>verb = POST,
                               target = endpoint_url st ''keywords_data/google/search_volume/live'',
                               json_arg = Some (JList [JObj p])\<rparr>]
             \<and> distinct (map fst p)
             \<and> set (map fst p) \<subseteq> {''keywords'', ''use_clickstream'', ''location_name'',
                                     ''location_code'', ''language_name'', ''language_code'', ''tag''}
             \<and> map_of p ''keywords'' = Some (JList (map JStr keywords))
             \<and> map_of p ''use_clickstream'' = Some (JBool clickstream)
             \<and> (map_of p ''location_name'' = None) \<noteq> (map_of p ''location_code'' = None)
             \<and> (truthy_str loc_name \<longrightarrow> map_of p ''location_name'' = Some (str_value loc_name))
             \<and> (\<not> truthy_str loc_name \<longrightarrow> map_of p ''location_code'' = Some (int_value loc_code))
             \<and> (map_of p ''language_name'' = None) \<noteq> (map_of p ''language_code'' = None)
             \<and> (truthy_str lang_name \<longrightarrow> map_of p ''language_name'' = Some (str_value lang_name))
             \<and> (\<not> truthy_str lang_name \<longrightarrow> map_of p ''language_code'' = Some (str_value lang_code))
             \<and> map_of p ''tag'' = (if truthy_str tag then Some (str_value tag) else None)"
proof -
  let ?p = "search_volume_payload keywords loc_name loc_code lang_name lang_code clickstream tag"
  from assms(3) have loc: "truthy_str loc_name \<or> truthy_int loc_code"
    and lang: "truthy_str lang_name \<or> truthy_str lang_code"
    by (simp_all add: search_volume_args_ok_def)
  have "calls (snd (get_search_volume net keywords loc_name loc_code lang_name lang_code
                      clickstream tag st))
        = calls st @ [\<lparr>verb = POST,
                        target = endpoint_url st ''keywords_data/google/search_volume/live'',
                        json_arg = Some (JList [JObj ?p])\<rparr>]"
    by (rule get_search_volume_calls[OF assms])
  moreover have "distinct (map fst ?p)"
    by (rule search_volume_payload_keys)
  moreover have "set (map fst ?p) \<subseteq> {''keywords'', ''use_clickstream'', ''location_name'',
                                     ''location_code'', ''language_name'', ''language_code'', ''tag''}"
    by (rule search_volume_payload_keys)
  moreover have "map_of ?p ''keywords'' = Some (JList (map JStr keywords))"
    by (simp add: search_volume_payload_lookup)
  moreover have "map_of ?p ''use_clickstream'' = Some (JBool clickstream)"
    by (simp add: search_volume_payload_lookup)
  moreover have "(map_of ?p ''location_name'' = None) \<noteq> (map_of ?p ''location_code'' = None)"
    using loc by (auto simp: search_volume_payload_lookup)
  moreover have "truthy_str loc_name \<longrightarrow> map_of ?p ''location_name'' = Some (str_value loc_name)"
    by (simp add: search_volume_payload_lookup)
  moreover have "\<not> truthy_str loc_name \<longrightarrow> map_of ?p ''location_code'' = Some (int_value loc_code)"
    using loc by (auto simp: search_volume_payload_lookup)
  moreover have "(map_of ?p ''language_name'' = None) \<noteq> (map_of ?p ''language_code'' = None)"
    using lang by (auto simp: search_volume_payload_lookup)
  moreover have "truthy_str lang_name \<longrightarrow> map_of ?p ''language_name'' = Some (str_value lang_name)"
    by (simp add: search_volume_payload_lookup)
  moreover have "\<not> truthy_str lang_name \<longrightarrow> map_of ?p ''language_code'' = Some (str_value lang_code)"
    using lang by (auto simp: search_volume_payload_lookup)
  moreover have "map_of ?p ''tag'' = (if truthy_str tag then Some (str_value tag) else None)"
    by (simp add: search_volume_payload_lookup)
  ultimately show ?thesis by blast
qed

theorem get_search_volume_payload_sent_witness:
  "\<exists>p. calls (snd (get_search_volume (fixture 200 ok_response) [''seo tools'']
                     (Some ''United States'') (Some 2840) None (Some ''en'') True (Some ''batch-1'')
                     acquired))
         = calls acquired @ [\<lparr>verb = POST,
              target = endpoint_url acquired ''keywords_data/google/search_volume/live'',
              json_arg = Some (JList [JObj p])\<rparr>]
       \<and> distinct (map fst p)
       \<and> set (map fst p) \<subseteq> {''keywords'', ''use_clickstream'', ''location_name'',
                               ''location_code'', ''language_name'', ''language_code'', ''tag''}
       \<and> map_of p ''keywords'' = Some (JList (map JStr [''seo tools'']))
       \<and> map_of p ''use_clickstream'' = Some (JBool True)
       \<and> (map_of p ''location_name'' = None) \<noteq> (map_of p ''location_code'' = None)
       \<and> map_of p ''location_name'' = Some (JStr ''United States'')
       \<and> (map_of p ''language_name'' = None) \<noteq> (map_of p ''language_code'' = None)
       \<and> map_of p ''language_code'' = Some (JStr ''en'')
       \<and> map_of p ''tag'' = Some (JStr ''batch-1'')"
  using get_search_volume_payload_sent[of acquired open_session "[''seo tools'']"
          "Some ''United States''" "Some 2840" None "Some ''en''" "fixture 200 ok_response" True
          "Some ''batch-1''"]
  by (simp add: shape_defs str_value_def)

text \<open>
  C8. \<^verbatim>\<open>get_search_volume_by_location\<close> raises \<^verbatim>\<open>ValueError\<close> exactly when the keyword list
  is empty or neither a location name nor a location code is supplied; the length of
  the keywords plays no part. Otherwise, on a client inside its scope with a free slot,
  it hands the request to the session, with the keywords in its body as they are,
  short ones included.
\<close>

theorem by_location_validation:
  shows "((\<exists>m. fst (get_search_volume_by_location net keywords loc_name loc_code tag st)
                 = Raise (ValueError m))
            \<longleftrightarrow> keywords = [] \<or> \<not> (truthy_str loc_name \<or> truthy_int loc_code))
         \<and> (keywords \<noteq> [] \<and> (truthy_str loc_name \<or> truthy_int loc_code)
              \<and> session st = Some s \<and> 0 < rate_limiter st \<longrightarrow>
              (\<exists>p. calls (snd (get_search_volume_by_location net keywords loc_name loc_code tag st))
                     = calls st @ [\<lparr>verb = POST,
                          target = endpoint_url st
                            ''keywords_data/clickstream_data/search_volume_by_location/live'',
                          json_arg = Some (JList [JObj p])\<rparr>]
                   \<and> map_of p ''keywords'' = Some (JList (map JStr keywords))))"
proof -
  let ?op = "get_search_volume_by_location net keywords loc_name loc_code tag st"
  let ?p = "set_tag tag (set_location loc_name loc_code [(''keywords'', JList (map JStr keywords))])"
  have "\<exists>m. fst ?op = Raise (ValueError m)"
    if "keywords = [] \<or> \<not> (truthy_str loc_name \<or> truthy_int loc_code)"
    using that get_search_volume_by_location_invalid[of "keywords" loc_name loc_code net tag st]
    by (auto simp: by_location_args_ok_def)
  moreover have "keywords = [] \<or> \<not> (truthy_str loc_name \<or> truthy_int loc_code)"
    if "\<exists>m. fst ?op = Raise (ValueError m)"
  proof (rule ccontr)
    assume "\<not> (keywords = [] \<or> \<not> (truthy_str loc_name \<or> truthy_int loc_code))"
    then have ok: "by_location_args_ok keywords loc_name loc_code"
      by (simp add: by_location_args_ok_def)
    from that obtain m where "fst ?op = Raise (ValueError m)" by blast
    from get_search_volume_by_location_error[OF ok this]
    show False by (simp add: is_value_error_def)
  qed
  moreover have "\<exists>p. calls (snd ?op)
                     = calls st @ [\<lparr>verb = POST,
                          target = endpoint_url st
                            ''keywords_data/clickstream_data/search_volume_by_location/live'',
                          json_arg = Some (JList [JObj p])\<rparr>]
                   \<and> map_of p ''keywords'' = Some (JList (map JStr keywords))"
    if "keywords \<noteq> [] \<and> (truthy_str loc_name \<or> truthy_int loc_code)
          \<and> session st = Some s \<and> 0 < rate_limiter st"
  proof -
    from that have ok: "by_location_args_ok keywords loc_name loc_code"
      by (simp add: by_location_args_ok_def)
    from that have "calls (snd ?op)
                     = calls st @ [\<lparr>verb = POST,
                          target = endpoint_url st
                            ''keywords_data/clickstream_data/search_volume_by_location/live'',
                          json_arg = Some (JList [JObj ?p])\<rparr>]"
      using get_search_volume_by_location_calls[OF _ _ ok, of st s net tag] by simp
    moreover have "map_of ?p ''keywords'' = Some (JList (map JStr keywords))"
      by (simp add: map_of_set_tag map_of_set_location)
    ultimately show ?thesis by blast
  qed
  ultimately show ?thesis by blast
qed

theorem by_location_validation_witness:
  "(\<forall>m. fst (get_search_volume_by_location (fixture 200 nested_response) [''ab''] None (Some 2840)
              None acquired) \<noteq> Raise (ValueError m))
   \<and> (\<exists>p. calls (snd (get_search_volume_by_location (fixture 200 nested_response) [''ab''] None
                         (Some 2840) None acquired))
            = calls acquired @ [\<lparr>verb = POST,
                 target = endpoint_url acquired
                   ''keywords_data/clickstream_data/search_volume_by_location/live'',
                 json_arg = Some (JList [JObj p])\<rparr>]
          \<and> map_of p ''keywords'' = Some (JList (map JStr [''ab''])))"
  using by_location_validation[of "fixture 200 nested_response" "[''ab'']" None "Some 2840" None
          acquired open_session]
  by (simp add: shape_defs)

text \<open>
  C9. A transport that answers a request the same way whatever calls came before stands
  for a fixed provider response. With it, the same query made a second time, in the
  state the first one left, has the outcome of the first: the same list of records, or
  the same exception. An operation leaves the client object as it found it, and what
  it adds to the state (the calls, the log) its outcome does not read.
\<close>

theorem same_query_twice_same_outcome:
  assumes "\<And>cs cs'. net cs = net cs'"
  shows "fst (get_search_volume net keywords loc_name loc_code lang_name lang_code clickstream tag
                (snd (get_search_volume net keywords loc_name loc_code lang_name lang_code
                        clickstream tag st)))
           = fst (get_search_volume net keywords loc_name loc_code lang_name lang_code
                    clickstream tag st)
         \<and> fst (get_global_search_volume net keywords tag
                  (snd (get_global_search_volume net keywords tag st)))
           = fst (get_global_search_volume net keywords tag st)
         \<and> fst (get_search_volume_by_location net keywords loc_name loc_code tag
                  (snd (get_search_volume_by_location net keywords loc_name loc_code tag st)))
           = fst (get_search_volume_by_location net keywords loc_name loc_code tag st)
         \<and> fst (get_locations_and_languages net (snd (get_locations_and_languages net st)))
           = fst (get_locations_and_languages net st)"
proof -
  let ?a = "snd (get_search_volume net keywords loc_name loc_code lang_name lang_code
                   clickstream tag st)"
  let ?b = "snd (get_global_search_volume net keywords tag st)"
  let ?c = "snd (get_search_volume_by_location net keywords loc_name loc_code tag st)"
  let ?d = "snd (get_locations_and_languages net st)"
  have "net (calls ?a) = net (calls st)" and "net (calls ?b) = net (calls st)"
    and "net (calls ?c) = net (calls st)" and "net (calls ?d) = net (calls st)"
    by (rule assms)+
  moreover have "same_client st ?a" by (rule get_search_volume_same_client)
  moreover have "same_client st ?b" by (rule get_global_search_volume_same_client)
  moreover have "same_client st ?c" by (rule get_search_volume_by_location_same_client)
  moreover have "same_client st ?d"
    by (simp add: get_locations_and_languages_def make_request_same_client)
  ultimately show ?thesis
    by (simp add: get_search_volume_cong get_global_search_volume_cong
                  get_search_volume_by_location_cong make_request_outcome_cong
                  get_locations_and_languages_def)
qed

theorem same_query_twice_same_outcome_witness:
  "fst (get_search_volume (fixture 200 ok_response) [''seo tools''] (Some ''United States'') None
          (Some ''English'') None True None
          (snd (get_search_volume (fixture 200 ok_response) [''seo tools''] (Some ''United States'')
                  None (Some ''English'') None True None acquired)))
     = fst (get_search_volume (fixture 200 ok_response) [''seo tools''] (Some ''United States'') None
              (Some ''English'') None True None acquired)
   \<and> fst (get_global_search_volume (fixture 200 ok_response) [''seo tools''] None
            (snd (get_global_search_volume (fixture 200 ok_response) [''seo tools''] None acquired)))
     = fst (get_global_search_volume (fixture 200 ok_response) [''seo tools''] None acquired)
   \<and> fst (get_search_volume_by_location (fixture 200 ok_response) [''seo tools'']
            (Some ''United States'') None None
            (snd (get_search_volume_by_location (fixture 200 ok_response) [''seo tools'']
                    (Some ''United States'') None None acquired)))
     = fst (get_search_volume_by_location (fixture 200 ok_response) [''seo tools'']
              (Some ''United States'') None None acquired)
   \<and> fst (get_locations_and_languages (fixture 200 ok_response)
            (snd (get_locations_and_languages (fixture 200 ok_response) acquired)))
     = fst (get_locations_and_languages (fixture 200 ok_response) acquired)"
  using same_query_twice_same_outcome[of "fixture 200 ok_response" "[''seo tools'']"
          "Some ''United States''" None "Some ''English''" None True None acquired]
  by (simp add: fixture_def)

text \<open>
  C10. In \<^verbatim>\<open>get_global_search_volume\<close> and \<^verbatim>\<open>get_search_volume_by_location\<close>, an item of
  \<^verbatim>\<open>result[].items[]\<close> of a task that succeeds, when it lacks \<^verbatim>\<open>keyword\<close> or
  \<^verbatim>\<open>search_volume\<close>, is not dropped: the operation raises the \<^verbatim>\<open>KeyError\<close> of the missing
  key. The response has the nested shape of the wire protocol, so that the items are
  reached and are objects.
\<close>

theorem nested_item_without_field_raises_key_error:
  assumes "session st = Some s" and "0 < rate_limiter st"
    and "\<And>req. net (calls st) s req = Responds status response"
    and "succeeds response" and "wf_nested_response response"
    and "\<exists>item\<in>set (nested_items (filter succeeds (response_tasks response))). \<not> has_both item"
  shows "(global_args_ok keywords \<longrightarrow>
            (\<exists>k. fst (get_global_search_volume net keywords tag st) = Raise (KeyError k)
                  \<and> (k = ''keyword'' \<or> k = ''search_volume'')))
         \<and> (by_location_args_ok keywords loc_name loc_code \<longrightarrow>
            (\<exists>k. fst (get_search_volume_by_location net keywords loc_name loc_code tag st)
                    = Raise (KeyError k)
                  \<and> (k = ''keyword'' \<or> k = ''search_volume'')))"
proof -
  from assms(5) have obj: "is_object response" and lst: "list_of_objects (lookup response ''tasks'')"
    and wf: "list_all wf_nested_task (response_tasks response)"
    by (simp_all add: wf_nested_response_def)
  from assms(6) have inc: "\<not> list_all has_both (nested_items (filter succeeds (response_tasks response)))"
    by (auto simp: list_all_iff)
  have "\<exists>k. fst (get_global_search_volume net keywords tag st) = Raise (KeyError k)
                  \<and> (k = ''keyword'' \<or> k = ''search_volume'')"
    if ok: "global_args_ok keywords"
  proof -
    from get_global_search_volume_walk[of st s "keywords" net, OF assms(1,2) ok assms(3) obj assms(4) lst]
    obtain st' where "get_global_search_volume net keywords tag st
                        = global_tasks (response_tasks response) [] st'" by blast
    with global_tasks_incomplete[OF wf inc, of "[]" st'] show ?thesis
      by (auto simp: missing_field_def)
  qed
  moreover have "\<exists>k. fst (get_search_volume_by_location net keywords loc_name loc_code tag st)
                    = Raise (KeyError k)
                  \<and> (k = ''keyword'' \<or> k = ''search_volume'')"
    if ok: "by_location_args_ok keywords loc_name loc_code"
  proof -
    from get_search_volume_by_location_walk[of st s "keywords" loc_name loc_code net,
           OF assms(1,2) ok assms(3) obj assms(4) lst]
    obtain st' where "get_search_volume_by_location net keywords loc_name loc_code tag st
                        = located_tasks (response_tasks response) [] st'" by blast
    with located_tasks_incomplete[OF wf inc, of "[]" st'] show ?thesis
      by (auto simp: missing_field_def)
  qed
  ultimately show ?thesis by blast
qed

theorem nested_item_without_field_raises_key_error_witness:
  "(\<exists>k. fst (get_global_search_volume (fixture 200 nested_response) [''keyword research'', ''unknown phrase'']
              None acquired) = Raise (KeyError k)
        \<and> (k = ''keyword'' \<or> k = ''search_volume''))
   \<and> (\<exists>k. fst (get_search_volume_by_location (fixture 200 nested_response)
                [''keyword research'', ''unknown phrase''] None (Some 2840) None acquired)
            = Raise (KeyError k)
        \<and> (k = ''keyword'' \<or> k = ''search_volume''))"
  using nested_item_without_field_raises_key_error[of acquired open_session
          "fixture 200 nested_response" 200 nested_response
          "[''keyword research'', ''unknown phrase'']" None None "Some 2840"]
  by (simp add: shape_defs nested_shape_defs)

end
